theory Spec2Isabelle
  imports Main "HOL-Library.Product_Lexorder"
begin

section \<open>JavaScript numbers\<close>

text \<open>
  A Number of the program is \<open>NaN\<close>, one of the two infinities, or a finite value.
  A finite value is kept as an exact decimal \<open>Fin m e\<close>, standing for \<open>m * 10 ^ e\<close>, in
  the normal form that \<open>mkFin\<close> produces (no trailing zero in the mantissa, zero as
  \<open>Fin 0 0\<close>). Binary rounding, overflow of finite arithmetic to an infinity and the
  sign of zero are outside this model.
\<close>

datatype jsnum = NaN | PInf | NInf | Fin int int

function mkFin :: "int \<Rightarrow> int \<Rightarrow> jsnum" where
  "mkFin m e =
     (if m = 0 then Fin 0 0
      else if m mod 10 = 0 then mkFin (m div 10) (e + 1)
      else Fin m e)"
  by pat_completeness auto
termination
proof (relation "measure (\<lambda>(m, e). nat \<bar>m\<bar>)")
  show "wf (measure (\<lambda>(m, e). nat \<bar>m\<bar>))"
    by simp
next
  fix m e :: int
  assume "m \<noteq> 0" "m mod 10 = 0"
  then obtain k where "m = 10 * k" "k \<noteq> 0"
    by auto
  then show "((m div 10, e + 1), (m, e)) \<in> measure (\<lambda>(m, e). nat \<bar>m\<bar>)"
    by simp
qed

declare mkFin.simps [simp del]

definition normal :: "jsnum \<Rightarrow> bool" where
  "normal x = (case x of Fin m e \<Rightarrow> (if m = 0 then e = 0 else m mod 10 \<noteq> 0) | _ \<Rightarrow> True)"

definition isNaN :: "jsnum \<Rightarrow> bool" where
  "isNaN x = (x = NaN)"

text \<open>The comparisons of the program against zero: \<open>x > 0\<close>, \<open>x < 0\<close>, \<open>x == 0\<close>.\<close>

fun jgt0 :: "jsnum \<Rightarrow> bool" where
  "jgt0 NaN = False"
| "jgt0 PInf = True"
| "jgt0 NInf = False"
| "jgt0 (Fin m e) = (0 < m)"

fun jlt0 :: "jsnum \<Rightarrow> bool" where
  "jlt0 NaN = False"
| "jlt0 PInf = False"
| "jlt0 NInf = True"
| "jlt0 (Fin m e) = (m < 0)"

fun jeq0 :: "jsnum \<Rightarrow> bool" where
  "jeq0 (Fin m e) = (m = 0)"
| "jeq0 _ = False"

fun jneg :: "jsnum \<Rightarrow> jsnum" where
  "jneg NaN = NaN"
| "jneg PInf = NInf"
| "jneg NInf = PInf"
| "jneg (Fin m e) = Fin (- m) e"

fun jadd :: "jsnum \<Rightarrow> jsnum \<Rightarrow> jsnum" where
  "jadd NaN _ = NaN"
| "jadd _ NaN = NaN"
| "jadd PInf NInf = NaN"
| "jadd NInf PInf = NaN"
| "jadd PInf _ = PInf"
| "jadd _ PInf = PInf"
| "jadd NInf _ = NInf"
| "jadd _ NInf = NInf"
| "jadd (Fin a ea) (Fin b eb) =
     (let e = min ea eb
      in mkFin (a * 10 ^ nat (ea - e) + b * 10 ^ nat (eb - e)) e)"

definition jsub :: "jsnum \<Rightarrow> jsnum \<Rightarrow> jsnum" where
  "jsub x y = jadd x (jneg y)"

fun jmul :: "jsnum \<Rightarrow> jsnum \<Rightarrow> jsnum" where
  "jmul NaN _ = NaN"
| "jmul _ NaN = NaN"
| "jmul (Fin a ea) (Fin b eb) = mkFin (a * b) (ea + eb)"
| "jmul x y =
     (if jeq0 x \<or> jeq0 y then NaN
      else if jgt0 x = jgt0 y then PInf else NInf)"

text \<open>
  The integer Numbers of the program (a sequence number, a quantity) are integers here.
  A mathematical integer becomes a Number by rounding to the nearest, and from
  \<open>2 ^ 1024 - 2 ^ 970\<close> on the nearest Number is \<open>Infinity\<close>: that integer stands for
  \<open>Infinity\<close>, and its negative for \<open>-Infinity\<close>. (The rounding of the integers above
  \<open>2 ^ 53\<close> to the nearest Number is outside the model.)
\<close>

definition Number_overflow :: int where
  "Number_overflow =
     179769313486231580793728971405303415079934132710037826936173778980444968292764750946649017977587207096330286416692887910946555547851940402630657488671505820681908902000708383676273854845817711531764475730270069855571366959622842914819860834936475292719074168444365510704342711559699508093042880177904174497792"

definition toIntegerNumber :: "int \<Rightarrow> int" where
  "toIntegerNumber v =
     (if Number_overflow \<le> v then Number_overflow
      else if v \<le> - Number_overflow then - Number_overflow
      else v)"

definition isFiniteInteger :: "int \<Rightarrow> bool" where
  "isFiniteInteger n = (\<bar>n\<bar> < Number_overflow)"

text \<open>An integer Number as a number with a fraction part, for the arithmetic and for \<open>String\<close>.\<close>

definition num_of_int :: "int \<Rightarrow> jsnum" where
  "num_of_int n =
     (if Number_overflow \<le> n then PInf
      else if n \<le> - Number_overflow then NInf
      else mkFin n 0)"

section \<open>Strings\<close>

text \<open>
  A string is a list of bytes (UTF-8); the white space of \<open>trim\<close>, \<open>parseInt\<close>,
  \<open>parseFloat\<close> and of the class \<open>\s\<close> is the ASCII part of ECMAScript's white space
  and line terminators.
\<close>

definition is_ws :: "char \<Rightarrow> bool" where
  "is_ws c = (c \<in> set [CHR 0x09, CHR 0x0A, CHR 0x0B, CHR 0x0C, CHR 0x0D, CHR '' ''])"

definition is_digit :: "char \<Rightarrow> bool" where
  "is_digit c = (c \<in> set ''0123456789'')"

definition digit_val :: "char \<Rightarrow> int" where
  "digit_val c = of_char c - 48"

definition digit_char :: "nat \<Rightarrow> char" where
  "digit_char d = ''0123456789'' ! d"

definition int_of_digits :: "string \<Rightarrow> int" where
  "int_of_digits ds = foldl (\<lambda>a c. 10 * a + digit_val c) 0 ds"

function digits_of_int :: "int \<Rightarrow> string" where
  "digits_of_int n =
     (if n < 10 then [digit_char (nat n)]
      else digits_of_int (n div 10) @ [digit_char (nat (n mod 10))])"
  by pat_completeness auto
termination
  by (relation "measure nat") simp_all

declare digits_of_int.simps [simp del]

definition trim :: "string \<Rightarrow> string" where
  "trim s = rev (dropWhile is_ws (rev (dropWhile is_ws s)))"

text \<open>\<open>s.lastIndexOf(c)\<close>: the last position of \<open>c\<close>, or \<open>-1\<close>.\<close>

fun lastIndexOf_from :: "char \<Rightarrow> string \<Rightarrow> int \<Rightarrow> int \<Rightarrow> int" where
  "lastIndexOf_from c [] i found = found"
| "lastIndexOf_from c (x # xs) i found =
     lastIndexOf_from c xs (i + 1) (if x = c then i else found)"

definition lastIndexOf :: "string \<Rightarrow> char \<Rightarrow> int" where
  "lastIndexOf s c = lastIndexOf_from c s 0 (- 1)"

text \<open>\<open>s.replace(/c/g, '')\<close> and \<open>s.replace(c, d)\<close> (the first occurrence only).\<close>

definition remove_all :: "char \<Rightarrow> string \<Rightarrow> string" where
  "remove_all c s = filter (\<lambda>x. x \<noteq> c) s"

fun replace_first :: "char \<Rightarrow> char \<Rightarrow> string \<Rightarrow> string" where
  "replace_first c d [] = []"
| "replace_first c d (x # xs) = (if x = c then d # xs else x # replace_first c d xs)"

definition count_char :: "char \<Rightarrow> string \<Rightarrow> nat" where
  "count_char c s = length (filter (\<lambda>x. x = c) s)"

text \<open>An optional sign in front of a numeral: the factor and the rest.\<close>

fun read_sign :: "string \<Rightarrow> int \<times> string" where
  "read_sign [] = (1, [])"
| "read_sign (c # cs) =
     (if c = CHR ''-'' then (- 1, cs) else if c = CHR ''+'' then (1, cs) else (1, c # cs))"

text \<open>
  \<open>parseInt(s, 10)\<close>: leading white space, an optional sign, then the longest run of
  decimal digits; \<open>None\<close> is \<open>NaN\<close> (no digit). The result is the Number of the integer
  that the digits denote, an infinity when there are too many of them.
\<close>

definition parseInt :: "string \<Rightarrow> int option" where
  "parseInt s =
     (let (sg, r) = read_sign (dropWhile is_ws s);
          ds = takeWhile is_digit r
      in if ds = [] then None else Some (toIntegerNumber (sg * int_of_digits ds)))"

text \<open>
  \<open>parseFloat(s)\<close>: leading white space, then the longest prefix that is a
  StrDecimalLiteral: an optional sign, then \<open>Infinity\<close> or digits with an optional
  fraction and an optional exponent part. No such prefix gives \<open>NaN\<close>. The value is the
  decimal that was written (the program rounds it to a Number, and to an infinity when
  it is too large).
\<close>

definition read_exponent :: "string \<Rightarrow> int" where
  "read_exponent r =
     (case r of
        [] \<Rightarrow> 0
      | c # cs \<Rightarrow>
          if c = CHR ''e'' \<or> c = CHR ''E'' then
            (let (sg, r') = read_sign cs;
                 ds = takeWhile is_digit r'
             in if ds = [] then 0 else sg * int_of_digits ds)
          else 0)"

definition read_decimal :: "int \<Rightarrow> string \<Rightarrow> jsnum" where
  "read_decimal sg r =
     (let ip = takeWhile is_digit r;
          r1 = dropWhile is_digit r;
          has_dot = (r1 \<noteq> [] \<and> hd r1 = CHR ''.'');
          fp = (if has_dot then takeWhile is_digit (tl r1) else []);
          r2 = (if has_dot then dropWhile is_digit (tl r1) else r1)
      in if ip = [] \<and> fp = [] then NaN
         else mkFin (sg * int_of_digits (ip @ fp)) (read_exponent r2 - int (length fp)))"

definition parseFloat :: "string \<Rightarrow> jsnum" where
  "parseFloat s =
     (let (sg, r) = read_sign (dropWhile is_ws s)
      in if take 8 r = ''Infinity'' then (if sg < 0 then NInf else PInf)
         else read_decimal sg r)"

text \<open>
  \<open>String(x)\<close> for a Number (Number::toString, radix 10): with \<open>k\<close> digits and the
  decimal point after the \<open>n\<close>-th, plain notation for \<open>-6 < n \<le> 21\<close>, exponent notation
  otherwise.
\<close>

definition toString_pos :: "int \<Rightarrow> int \<Rightarrow> string" where
  "toString_pos m e =
     (let ds = digits_of_int m;
          k = int (length ds);
          n = k + e
      in if k \<le> n \<and> n \<le> 21 then ds @ replicate (nat (n - k)) CHR ''0''
         else if 0 < n \<and> n \<le> 21 then take (nat n) ds @ ''.'' @ drop (nat n) ds
         else if - 6 < n \<and> n \<le> 0 then ''0.'' @ replicate (nat (- n)) CHR ''0'' @ ds
         else (let es = (if n - 1 < 0 then ''-'' else ''+'') @ digits_of_int \<bar>n - 1\<bar>
               in if k = 1 then ds @ ''e'' @ es
                  else take 1 ds @ ''.'' @ drop 1 ds @ ''e'' @ es))"

fun toString :: "jsnum \<Rightarrow> string" where
  "toString NaN = ''NaN''"
| "toString PInf = ''Infinity''"
| "toString NInf = ''-Infinity''"
| "toString (Fin m e) =
     (if m = 0 then ''0''
      else if m < 0 then ''-'' @ toString_pos (- m) e
      else toString_pos m e)"

definition string_of_int :: "int \<Rightarrow> string" where
  "string_of_int n = toString (num_of_int n)"

section \<open>The currency parser\<close>

text \<open>The values \<open>parseCurrency\<close> is called with: a number, a string, or \<open>undefined\<close>
  (a column that the imported file does not have).\<close>

datatype jsval = VNum jsnum | VStr string | VUndefined

fun String :: "jsval \<Rightarrow> string" where
  "String (VNum x) = toString x"
| "String (VStr s) = s"
| "String VUndefined = ''undefined''"

definition normalizeSeparators :: "string \<Rightarrow> string" where
  "normalizeSeparators s =
     (let lastComma = lastIndexOf s CHR '','';
          lastDot = lastIndexOf s CHR ''.''
      in if lastComma > lastDot
         then replace_first CHR '','' CHR ''.'' (remove_all CHR ''.'' s)
         else (let s' = remove_all CHR '','' s;
                   dotCount = count_char CHR ''.'' s'
               in if dotCount > 1 then remove_all CHR ''.'' s' else s'))"

fun parseCurrency :: "jsval \<Rightarrow> jsnum" where
  "parseCurrency (VNum x) = x"
| "parseCurrency v =
     (let s = trim (String v)
      in if s = [] then Fin 0 0
         else (let num = parseFloat (normalizeSeparators s)
               in if isNaN num then Fin 0 0 else num))"

text \<open>
  The algorithm in the words of the specification: if the last comma occurs after the
  last dot (of the separators in the string, the last one is a comma), all dots are
  stripped and the comma is replaced by a dot; otherwise all commas are stripped and,
  if more than one dot remains, all dots are stripped too.
\<close>

definition lastSeparatorIsComma :: "string \<Rightarrow> bool" where
  "lastSeparatorIsComma s =
     (case dropWhile (\<lambda>c. c \<noteq> CHR '','' \<and> c \<noteq> CHR ''.'') (rev s) of
        [] \<Rightarrow> False
      | c # _ \<Rightarrow> c = CHR '','')"

definition specNormalize :: "string \<Rightarrow> string" where
  "specNormalize s =
     (if lastSeparatorIsComma s
      then replace_first CHR '','' CHR ''.'' (remove_all CHR ''.'' s)
      else if count_char CHR ''.'' (remove_all CHR '','' s) > 1
           then remove_all CHR ''.'' (remove_all CHR '','' s)
           else remove_all CHR '','' s)"

text \<open>
  The same numeral in the other convention: every comma becomes a dot and every dot a
  comma.
\<close>

definition swap_separators :: "string \<Rightarrow> string" where
  "swap_separators s =
     map (\<lambda>c. if c = CHR '','' then CHR ''.'' else if c = CHR ''.'' then CHR '','' else c) s"

section \<open>Calendar dates\<close>

text \<open>
  A Date is its time value, the milliseconds since the epoch. \<open>DayFromYear\<close>,
  \<open>MakeDay\<close> and \<open>Date.UTC\<close> follow ECMAScript's definitions; \<open>Date.UTC\<close> maps the
  years 0 to 99 to 1900 to 1999.
\<close>

definition msPerDay :: int where
  "msPerDay = 86400000"

definition DayFromYear :: "int \<Rightarrow> int" where
  "DayFromYear y =
     365 * (y - 1970) + (y - 1969) div 4 - (y - 1901) div 100 + (y - 1601) div 400"

definition InLeapYear :: "int \<Rightarrow> bool" where
  "InLeapYear y = ((y mod 4 = 0 \<and> y mod 100 \<noteq> 0) \<or> y mod 400 = 0)"

definition DaysBeforeMonth :: "int \<Rightarrow> int \<Rightarrow> int" where
  "DaysBeforeMonth y mn =
     [0, 31, 59, 90, 120, 151, 181, 212, 243, 273, 304, 334] ! nat mn
       + (if InLeapYear y \<and> 2 \<le> mn then 1 else 0)"

definition DaysInMonth :: "int \<Rightarrow> int \<Rightarrow> int" where
  "DaysInMonth y mn =
     (if mn = 1 then (if InLeapYear y then 29 else 28)
      else if mn \<in> {3, 5, 8, 10} then 30 else 31)"

definition MakeDay :: "int \<Rightarrow> int \<Rightarrow> int \<Rightarrow> int" where
  "MakeDay year month dt =
     (let ym = year + month div 12;
          mn = month mod 12
      in DayFromYear ym + DaysBeforeMonth ym mn + dt - 1)"

definition MakeFullYear :: "int \<Rightarrow> int" where
  "MakeFullYear year = (if 0 \<le> year \<and> year \<le> 99 then 1900 + year else year)"

definition Date_UTC :: "int \<Rightarrow> int \<Rightarrow> int \<Rightarrow> int" where
  "Date_UTC year month dt = MakeDay (MakeFullYear year) month dt * msPerDay"

definition getUTCDay :: "int \<Rightarrow> int" where
  "getUTCDay t = (t div msPerDay + 4) mod 7"

text \<open>The test \<open>/^\d{4}-\d{2}-\d{2}$/\<close>.\<close>

definition is_date_shape :: "string \<Rightarrow> bool" where
  "is_date_shape s =
     (case s of
        [y1, y2, y3, y4, h1, m1, m2, h2, d1, d2] \<Rightarrow>
          is_digit y1 \<and> is_digit y2 \<and> is_digit y3 \<and> is_digit y4 \<and> h1 = CHR ''-'' \<and>
          is_digit m1 \<and> is_digit m2 \<and> h2 = CHR ''-'' \<and> is_digit d1 \<and> is_digit d2
      | _ \<Rightarrow> False)"

text \<open>\<open>dateString.split('-').map(Number)\<close> on a string of that shape.\<close>

definition date_year :: "string \<Rightarrow> int" where
  "date_year s = int_of_digits (take 4 s)"

definition date_month :: "string \<Rightarrow> int" where
  "date_month s = int_of_digits (take 2 (drop 5 s))"

definition date_day :: "string \<Rightarrow> int" where
  "date_day s = int_of_digits (take 2 (drop 8 s))"

definition getDateAsUTC :: "string \<Rightarrow> int" where
  "getDateAsUTC dateString =
     (if dateString = [] \<or> \<not> is_date_shape dateString then 0
      else Date_UTC (date_year dateString) (date_month dateString - 1) (date_day dateString))"

text \<open>
  \<open>new Date(s).getTime()\<close> for a date string, with \<open>None\<close> for \<open>NaN\<close>. A string
  \<open>YYYY-MM-DD\<close> that names a day of the calendar is that day's midnight UTC. A string
  of that shape with a month outside 01 to 12 or a day outside 01 to 31 has an element
  out of bounds, for which \<open>Date.parse\<close> returns \<open>NaN\<close>. What any other string gives (a
  day 29 to 31 that the month does not have, or another shape) depends on the engine
  and is the parameter \<open>other\<close>.
\<close>

definition is_calendar_date :: "string \<Rightarrow> bool" where
  "is_calendar_date s =
     (is_date_shape s \<and> 1 \<le> date_month s \<and> date_month s \<le> 12 \<and> 1 \<le> date_day s \<and>
      date_day s \<le> DaysInMonth (date_year s) (date_month s - 1))"

definition dateTime :: "string \<Rightarrow> int" where
  "dateTime s = MakeDay (date_year s) (date_month s - 1) (date_day s) * msPerDay"

definition Date_getTime :: "(string \<Rightarrow> int option) \<Rightarrow> string \<Rightarrow> int option" where
  "Date_getTime other s =
     (if is_calendar_date s then Some (dateTime s)
      else if is_date_shape s \<and>
              \<not> (1 \<le> date_month s \<and> date_month s \<le> 12 \<and> 1 \<le> date_day s \<and> date_day s \<le> 31)
           then None
           else other s)"

text \<open>The clock, read as the UTC calendar fields of \<open>new Date()\<close>.\<close>

record clock =
  utcFullYear :: int
  utcMonth :: int
  utcDate :: int

definition valid_clock :: "clock \<Rightarrow> bool" where
  "valid_clock c =
     (0 \<le> utcMonth c \<and> utcMonth c \<le> 11 \<and> 1 \<le> utcDate c \<and>
      utcDate c \<le> DaysInMonth (utcFullYear c) (utcMonth c))"

section \<open>Operations and the application state\<close>

datatype Side = Buy | Sell

datatype Status = Gain | Loss | BreakEven

text \<open>
  An operation. The identifier, the sequence number and the quantity are integer
  Numbers; the prices, the points and the result are numbers with a fraction part.
\<close>

record Operation =
  op_id :: int
  asset :: string
  opNumber :: int
  side :: Side
  date :: string
  lots :: int
  entryPrice :: jsnum
  exitPrice :: jsnum
  points :: jsnum
  result :: jsnum
  status :: Status
  region :: string
  "structure" :: string
  trigger :: string

datatype FilterType = All | Today | Week | Month

record FormState =
  form_asset :: string
  form_side :: Side
  form_date :: string
  form_lots :: string
  form_entryPrice :: string
  form_exitPrice :: string
  form_pointValue :: string
  form_region :: string
  form_newRegion :: string
  form_structure :: string
  form_trigger :: string
  form_newTrigger :: string

text \<open>
  The state of \<open>App\<close> that the handlers below read and write. The contents of the form
  are an input of \<open>handleSubmit\<close>; of \<open>resetForm\<close> the model keeps the three fields it
  clears.
\<close>

record AppState =
  operations :: "Operation list"
  triggers :: "string list"
  regions :: "string list"
  editingId :: "int option"
  isAddingRegion :: bool
  isAddingTrigger :: bool

datatype error = InvalidNumberInRow nat | TypeError

datatype alert = ImportSuccess nat | ImportErrorDetail error

text \<open>
  \<open>xs.sort(cmp)\<close>. The sort of an array is stable, and with a consistent comparator
  every engine returns the list that this insertion sort returns.
\<close>

fun sort_insert :: "('a \<Rightarrow> 'a \<Rightarrow> int) \<Rightarrow> 'a \<Rightarrow> 'a list \<Rightarrow> 'a list" where
  "sort_insert cmp x [] = [x]"
| "sort_insert cmp x (y # ys) =
     (if cmp x y \<le> 0 then x # y # ys else y # sort_insert cmp x ys)"

definition js_sort :: "('a \<Rightarrow> 'a \<Rightarrow> int) \<Rightarrow> 'a list \<Rightarrow> 'a list" where
  "js_sort cmp xs = foldr (sort_insert cmp) xs []"

text \<open>
  The comparator \<open>a.opNumber - b.opNumber\<close>. (Of two equal infinities the difference is
  \<open>NaN\<close>, which the sort takes as 0, the difference of the two integers here.)
\<close>

definition byOpNumber :: "Operation \<Rightarrow> Operation \<Rightarrow> int" where
  "byOpNumber a b = opNumber a - opNumber b"

text \<open>
  \<open>Math.max(...xs)\<close>. The program calls it for a non-empty list only (the first equation
  is never used). \<open>n + 1\<close> for an integer Number: an infinity stays what it is.
\<close>

fun Math_max :: "int list \<Rightarrow> int" where
  "Math_max [] = 0"
| "Math_max (x # xs) = foldl max x xs"

definition plusOne :: "int \<Rightarrow> int" where
  "plusOne n = (if isFiniteInteger n then n + 1 else n)"

definition resetForm :: "AppState \<Rightarrow> AppState" where
  "resetForm st = st\<lparr>editingId := None, isAddingRegion := False, isAddingTrigger := False\<rparr>"

text \<open>
  The trigger and the region of a submitted form: the new one typed in, when its input
  is open and not blank, is used and joins the list unless the list has it.
\<close>

definition currentTrigger :: "FormState \<Rightarrow> AppState \<Rightarrow> string" where
  "currentTrigger formState st =
     (if isAddingTrigger st \<and> trim (form_newTrigger formState) \<noteq> []
      then trim (form_newTrigger formState) else form_trigger formState)"

definition submittedTriggers :: "FormState \<Rightarrow> AppState \<Rightarrow> string list" where
  "submittedTriggers formState st =
     (if isAddingTrigger st \<and> trim (form_newTrigger formState) \<noteq> [] \<and>
         currentTrigger formState st \<notin> set (triggers st)
      then triggers st @ [currentTrigger formState st] else triggers st)"

definition currentRegion :: "FormState \<Rightarrow> AppState \<Rightarrow> string" where
  "currentRegion formState st =
     (if isAddingRegion st \<and> trim (form_newRegion formState) \<noteq> []
      then trim (form_newRegion formState) else form_region formState)"

definition submittedRegions :: "FormState \<Rightarrow> AppState \<Rightarrow> string list" where
  "submittedRegions formState st =
     (if isAddingRegion st \<and> trim (form_newRegion formState) \<noteq> [] \<and>
         currentRegion formState st \<notin> set (regions st)
      then regions st @ [currentRegion formState st] else regions st)"

text \<open>
  The operation that \<open>handleSubmit\<close> builds (\<open>updatedOp\<close> and \<open>newOp\<close> differ in the
  identifier and the operation number only), from the parsed inputs.
\<close>

definition submittedOp ::
  "FormState \<Rightarrow> AppState \<Rightarrow> int \<Rightarrow> jsnum \<Rightarrow> jsnum \<Rightarrow> jsnum \<Rightarrow> int \<Rightarrow> int \<Rightarrow> Operation" where
  "submittedOp formState st lots_v entryPrice_v exitPrice_v pointValue i n =
     (let points_v =
            (if form_side formState = Buy then jsub exitPrice_v entryPrice_v
             else jsub entryPrice_v exitPrice_v);
          result_v = jmul (jmul points_v (num_of_int lots_v)) pointValue;
          status_v = (if jgt0 result_v then Gain else if jlt0 result_v then Loss else BreakEven)
      in \<lparr>op_id = i, asset = form_asset formState, opNumber = n,
          side = form_side formState, date = form_date formState,
          lots = lots_v, entryPrice = entryPrice_v, exitPrice = exitPrice_v,
          points = points_v, result = result_v, status = status_v,
          region = currentRegion formState st, structure = form_structure formState,
          trigger = currentTrigger formState st\<rparr>)"

text \<open>
  \<open>handleSubmit\<close>, with \<open>now\<close> the value of \<open>Date.now()\<close>. An invalid form returns without
  a change. In edit mode \<open>operations.find(...)!.opNumber\<close> throws a TypeError when no
  operation has the edited identifier; the list of operations is then not written. The
  request for the comment of the AI coach is outside the model.
\<close>

definition handleSubmit :: "int \<Rightarrow> FormState \<Rightarrow> AppState \<Rightarrow> error + AppState" where
  "handleSubmit now formState st =
     (let lots_p = parseInt (form_lots formState);
          entryPrice_v = parseCurrency (VStr (form_entryPrice formState));
          exitPrice_v = parseCurrency (VStr (form_exitPrice formState));
          pointValue = parseCurrency (VStr (form_pointValue formState))
      in case lots_p of
           None \<Rightarrow> Inr st
         | Some lots_v \<Rightarrow>
             if isNaN entryPrice_v \<or> isNaN exitPrice_v \<or> isNaN pointValue \<or> lots_v \<le> 0
             then Inr st
             else
               (let st' = st\<lparr>triggers := submittedTriggers formState st,
                              regions := submittedRegions formState st\<rparr>;
                    mk = submittedOp formState st lots_v entryPrice_v exitPrice_v pointValue
                in case editingId st of
                     Some eid \<Rightarrow>
                       (case find (\<lambda>op. op_id op = eid) (operations st) of
                          None \<Rightarrow> Inl TypeError
                        | Some old \<Rightarrow>
                            Inr (resetForm (st'\<lparr>operations :=
                              map (\<lambda>op. if op_id op = eid then mk eid (opNumber old) else op)
                                (operations st)\<rparr>)))
                   | None \<Rightarrow>
                       Inr (resetForm (st'\<lparr>operations := operations st @
                         [mk now (plusOne (if operations st \<noteq> []
                                           then Math_max (map opNumber (operations st))
                                           else 0))]\<rparr>))))"

text \<open>\<open>confirmDelete\<close>, with the value of \<open>operationToDelete\<close>.\<close>

definition renumber :: "Operation list \<Rightarrow> Operation list" where
  "renumber ops = map (\<lambda>(idx, op). op\<lparr>opNumber := int idx + 1\<rparr>) (enumerate 0 ops)"

definition confirmDelete :: "Operation option \<Rightarrow> AppState \<Rightarrow> AppState" where
  "confirmDelete operationToDelete st =
     (case operationToDelete of
        None \<Rightarrow> st
      | Some target \<Rightarrow>
          st\<lparr>operations :=
            renumber (js_sort byOpNumber
              (filter (\<lambda>op. op_id op \<noteq> op_id target) (operations st)))\<rparr>)"

section \<open>Filtering and the cumulative series\<close>

definition nowUTC :: "clock \<Rightarrow> int" where
  "nowUTC c = Date_UTC (utcFullYear c) (utcMonth c) (utcDate c)"

text \<open>
  \<open>startOfWeekUTC.setUTCDate(nowUTC.getUTCDate() - nowUTC.getUTCDay())\<close>: the day of the
  month is replaced, in the year and month of \<open>nowUTC\<close>. For the fields of a valid clock,
  the year, month and day of the month of \<open>nowUTC\<close> are the ones it was made from.
\<close>

definition startOfWeekUTC :: "clock \<Rightarrow> int" where
  "startOfWeekUTC c =
     MakeDay (MakeFullYear (utcFullYear c)) (utcMonth c) (utcDate c - getUTCDay (nowUTC c))
       * msPerDay"

definition startOfMonthUTC :: "clock \<Rightarrow> int" where
  "startOfMonthUTC c = Date_UTC (utcFullYear c) (utcMonth c) 1"

definition filteredOperations :: "FilterType \<Rightarrow> clock \<Rightarrow> Operation list \<Rightarrow> Operation list" where
  "filteredOperations flt c ops =
     (case flt of
        All \<Rightarrow> ops
      | Today \<Rightarrow> filter (\<lambda>op. getDateAsUTC (date op) = nowUTC c) ops
      | Week \<Rightarrow> filter (\<lambda>op. getDateAsUTC (date op) \<ge> startOfWeekUTC c) ops
      | Month \<Rightarrow> filter (\<lambda>op. getDateAsUTC (date op) \<ge> startOfMonthUTC c) ops)"

text \<open>
  The comparator of \<open>cumulativeChartData\<close>: the difference of the two times unless it is
  zero or \<open>NaN\<close>, then the difference of the operation numbers.
\<close>

definition byDateThenOpNumber ::
  "(string \<Rightarrow> int option) \<Rightarrow> Operation \<Rightarrow> Operation \<Rightarrow> int" where
  "byDateThenOpNumber other a b =
     (case (Date_getTime other (date a), Date_getTime other (date b)) of
        (Some ta, Some tb) \<Rightarrow> if ta - tb \<noteq> 0 then ta - tb else opNumber a - opNumber b
      | _ \<Rightarrow> opNumber a - opNumber b)"

fun running :: "jsnum \<Rightarrow> Operation list \<Rightarrow> (string \<times> jsnum) list" where
  "running cumulative [] = []"
| "running cumulative (op # ops) =
     (let cumulative' = jadd cumulative (result op)
      in (date op, cumulative') # running cumulative' ops)"

definition cumulativeChartData ::
  "(string \<Rightarrow> int option) \<Rightarrow> Operation list \<Rightarrow> (string \<times> jsnum) list" where
  "cumulativeChartData other filteredOps =
     running (Fin 0 0) (js_sort (byDateThenOpNumber other) filteredOps)"

text \<open>\<open>LineChart\<close>: the message instead of the chart, or the chart of the data (its
  drawing is not modelled).\<close>

datatype rendering = NoDataMessage | AreaChart "(string \<times> jsnum) list"

definition LineChart :: "(string \<times> jsnum) list \<Rightarrow> rendering" where
  "LineChart data = (if length data < 2 then NoDataMessage else AreaChart data)"

section \<open>CSV export and import\<close>

text \<open>
  A CSV file is taken as the table that Papa Parse reads from it and that
  \<open>Papa.unparse\<close> writes to it: the header line and the data lines, each a list of
  cells. The quoting of cells and the detection of the delimiter belong to that library.
\<close>

record csv =
  header :: "string list"
  data :: "string list list"

definition string_of_Side :: "Side \<Rightarrow> string" where
  "string_of_Side s = (case s of Buy \<Rightarrow> ''Buy'' | Sell \<Rightarrow> ''Sell'')"

definition string_of_Status :: "Status \<Rightarrow> string" where
  "string_of_Status s =
     (case s of Gain \<Rightarrow> ''Gain'' | Loss \<Rightarrow> ''Loss'' | BreakEven \<Rightarrow> ''Break-even'')"

text \<open>
  \<open>Papa.unparse(operations)\<close>: the columns are the keys of the first operation, each
  cell is the value of that key as a string; no operation gives the empty file. The
  order of the columns is that of a record made by the form (the import reads the cells
  by the name of their column).
\<close>

definition unparse_fields :: "string list" where
  "unparse_fields =
     [''id'', ''asset'', ''opNumber'', ''side'', ''date'', ''lots'', ''entryPrice'',
      ''exitPrice'', ''points'', ''result'', ''status'', ''region'', ''structure'',
      ''trigger'']"

definition unparse_row :: "Operation \<Rightarrow> string list" where
  "unparse_row op =
     [string_of_int (op_id op), asset op, string_of_int (opNumber op),
      string_of_Side (side op), date op, string_of_int (lots op),
      toString (entryPrice op), toString (exitPrice op), toString (points op),
      toString (result op), string_of_Status (status op), region op, structure op,
      trigger op]"

definition exportToCSV :: "Operation list \<Rightarrow> csv" where
  "exportToCSV ops =
     (if ops = [] then \<lparr>header = [], data = []\<rparr>
      else \<lparr>header = unparse_fields, data = map unparse_row ops\<rparr>)"

text \<open>
  \<open>header.toLowerCase().replace(/[\s_]/g, '')\<close>. The lower case is that of the ASCII
  letters and of the letters of Latin-1 (\<open>U+00C0\<close> to \<open>U+00DE\<close> without the
  multiplication sign, in UTF-8 the byte \<open>0xC3\<close> and a byte from \<open>0x80\<close> to \<open>0x9E\<close>), which
  the column names of the table below are written in; letters of other scripts are left
  as they are.
\<close>

definition toLowerCase_char :: "char \<Rightarrow> char" where
  "toLowerCase_char c =
     (if 65 \<le> (of_char c :: nat) \<and> (of_char c :: nat) \<le> 90
      then char_of ((of_char c :: nat) + 32) else c)"

fun toLowerCase :: "string \<Rightarrow> string" where
  "toLowerCase [] = []"
| "toLowerCase [c] = [toLowerCase_char c]"
| "toLowerCase (c # d # cs) =
     (if c = CHR 0xC3 \<and> 128 \<le> (of_char d :: nat) \<and> (of_char d :: nat) \<le> 158 \<and> d \<noteq> CHR 0x97
      then c # char_of ((of_char d :: nat) + 32) # toLowerCase cs
      else toLowerCase_char c # toLowerCase (d # cs))"

definition transformHeader :: "string \<Rightarrow> string" where
  "transformHeader h =
     filter (\<lambda>c. \<not> is_ws c \<and> c \<noteq> CHR ''_'') (toLowerCase h)"

definition headerMapping :: "(string \<times> string) list" where
  "headerMapping =
     [(''opnumber'', ''opNumber''), (''op#'', ''opNumber''),
      (''nro.daopera'' @ [CHR 0xC3, CHR 0xA7, CHR 0xC3, CHR 0xA3] @ ''o'', ''opNumber''),
      (''asset'', ''asset''), (''ativo'', ''asset''),
      (''side'', ''side''), (''lado'', ''side''),
      (''date'', ''date''), (''data'', ''date''),
      (''lots'', ''lots''), (''lotes'', ''lots''),
      (''entryprice'', ''entryPrice''),
      (''pre'' @ [CHR 0xC3, CHR 0xA7] @ ''odeentrada'', ''entryPrice''),
      (''entrada'', ''entryPrice''),
      (''exitprice'', ''exitPrice''),
      (''pre'' @ [CHR 0xC3, CHR 0xA7] @ ''odesa'' @ [CHR 0xC3, CHR 0xAD] @ ''da'', ''exitPrice''),
      (''sa'' @ [CHR 0xC3, CHR 0xAD] @ ''da'', ''exitPrice''),
      (''points'', ''points''), (''pontos'', ''points''),
      (''result'', ''result''), (''resultado'', ''result''),
      (''status'', ''status''),
      (''region'', ''region''), (''regi'' @ [CHR 0xC3, CHR 0xA3] @ ''o'', ''region''),
      (''structure'', ''structure''), (''estrutura'', ''structure''),
      (''trigger'', ''trigger''), (''gatilho'', ''trigger'')]"

text \<open>
  The object Papa Parse builds for a data line: the cells under the transformed names of
  their columns. A line shorter than the header has no value for the last columns.
  (Of two columns with the same transformed name the later one is kept here, as an
  assignment to the same key does; versions of the library that rename a repeated
  header keep the first. The files that the export writes have no repeated name.)
\<close>

definition row_object :: "string list \<Rightarrow> string list \<Rightarrow> (string \<times> string) list" where
  "row_object hdr cells = zip (map transformHeader hdr) cells"

text \<open>
  \<open>normalizedRow\<close>: the loop over the keys of the row; a later key with the same
  canonical name overwrites. The object is an association list read from the front.
  (A column whose transformed name is an inherited property of the table object, such
  as \<open>constructor\<close>, is stored under a key that no field is read from; the model drops
  it.)
\<close>

definition normalizedRow :: "(string \<times> string) list \<Rightarrow> (string \<times> string) list" where
  "normalizedRow row =
     foldl (\<lambda>nr (key, v).
        case map_of headerMapping key of Some field \<Rightarrow> (field, v) # nr | None \<Rightarrow> nr) [] row"

text \<open>\<open>x || d\<close> for a string or \<open>undefined\<close>, and \<open>x\<close> as an argument of \<open>parseCurrency\<close>.\<close>

definition or_default :: "string option \<Rightarrow> string \<Rightarrow> string" where
  "or_default x d = (case x of None \<Rightarrow> d | Some s \<Rightarrow> if s = [] then d else s)"

definition jsval_of :: "string option \<Rightarrow> jsval" where
  "jsval_of x = (case x of None \<Rightarrow> VUndefined | Some s \<Rightarrow> VStr s)"

text \<open>
  The body of the \<open>map\<close> callback for the row at \<open>index\<close>; \<open>now\<close> is \<open>Date.now()\<close> and
  \<open>today\<close> is \<open>new Date().toISOString().split('T')[0]\<close> at that row.
\<close>

definition importRow ::
  "int \<Rightarrow> string \<Rightarrow> nat \<Rightarrow> (string \<times> string) list \<Rightarrow> error + Operation" where
  "importRow now today index row =
     (let nr = map_of (normalizedRow row);
          opNumber_p = parseInt (or_default (nr ''opNumber'') ''0'');
          lots_p = parseInt (or_default (nr ''lots'') ''0'');
          entryPrice_v = parseCurrency (jsval_of (nr ''entryPrice''));
          exitPrice_v = parseCurrency (jsval_of (nr ''exitPrice''));
          points_v = parseCurrency (jsval_of (nr ''points''));
          result_v = parseCurrency (jsval_of (nr ''result''))
      in case (opNumber_p, lots_p) of
           (Some opNumber_v, Some lots_v) \<Rightarrow>
             Inr \<lparr>op_id = now + int index, asset = or_default (nr ''asset'') [],
                  opNumber = opNumber_v,
                  side = (if nr ''side'' = Some ''Sell'' then Sell else Buy),
                  date = or_default (nr ''date'') today,
                  lots = lots_v, entryPrice = entryPrice_v, exitPrice = exitPrice_v,
                  points = points_v, result = result_v,
                  status = (if nr ''status'' = Some ''Gain'' then Gain
                            else if nr ''status'' = Some ''Loss'' then Loss else BreakEven),
                  region = or_default (nr ''region'') [],
                  structure = or_default (nr ''structure'') [],
                  trigger = or_default (nr ''trigger'') []\<rparr>
         | _ \<Rightarrow> Inl (InvalidNumberInRow (index + 2)))"

text \<open>The test \<open>isNaN(opNumber) || isNaN(lots)\<close> of that callback, as a property of the row.\<close>

definition invalidNumber :: "(string \<times> string) list \<Rightarrow> bool" where
  "invalidNumber row =
     (let nr = map_of (normalizedRow row)
      in parseInt (or_default (nr ''opNumber'') ''0'') = None \<or>
         parseInt (or_default (nr ''lots'') ''0'') = None)"

text \<open>\<open>results.data.map(...)\<close>: the first row that throws ends the loop.\<close>

fun importRows ::
  "(nat \<Rightarrow> int) \<Rightarrow> (nat \<Rightarrow> string) \<Rightarrow> nat \<Rightarrow> (string \<times> string) list list \<Rightarrow>
   error + Operation list" where
  "importRows now today index [] = Inr []"
| "importRows now today index (row # rows) =
     (case importRow (now index) (today index) index row of
        Inl e \<Rightarrow> Inl e
      | Inr op \<Rightarrow>
          (case importRows now today (index + 1) rows of
             Inl e \<Rightarrow> Inl e
           | Inr ops \<Rightarrow> Inr (op # ops)))"

definition importedOps :: "(nat \<Rightarrow> int) \<Rightarrow> (nat \<Rightarrow> string) \<Rightarrow> csv \<Rightarrow> error + Operation list" where
  "importedOps now today file =
     importRows now today 0 (map (row_object (header file)) (data file))"

text \<open>The \<open>complete\<close> callback of \<open>handleFileImport\<close>: the new state and the alert.\<close>

definition handleFileImport ::
  "(nat \<Rightarrow> int) \<Rightarrow> (nat \<Rightarrow> string) \<Rightarrow> csv \<Rightarrow> AppState \<Rightarrow> AppState \<times> alert" where
  "handleFileImport now today file st =
     (case importedOps now today file of
        Inl e \<Rightarrow> (st, ImportErrorDetail e)
      | Inr imported \<Rightarrow>
          (st\<lparr>operations := js_sort byOpNumber (operations st @ imported)\<rparr>,
           ImportSuccess (length imported)))"

section \<open>The states of the application\<close>

text \<open>
  \<open>handleEdit\<close> opens a stored operation in the form (the contents of the form are
  outside the state).
\<close>

definition handleEdit :: "Operation \<Rightarrow> AppState \<Rightarrow> AppState" where
  "handleEdit op st = st\<lparr>editingId := Some (op_id op), isAddingRegion := False,
     isAddingTrigger := False\<rparr>"

text \<open>
  The inputs for the asset, the date, the quantity, the point value and the two prices
  are marked \<open>required\<close>: the browser submits the form, and \<open>handleSubmit\<close> runs, only when
  each of them has a value.
\<close>

definition requiredFilled :: "FormState \<Rightarrow> bool" where
  "requiredFilled formState =
     (form_asset formState \<noteq> [] \<and> form_date formState \<noteq> [] \<and> form_lots formState \<noteq> [] \<and>
      form_pointValue formState \<noteq> [] \<and> form_entryPrice formState \<noteq> [] \<and>
      form_exitPrice formState \<noteq> [])"

text \<open>
  The states that the application can be in. It starts with no operation. The list of
  operations is written by a submitted form, by a confirmed delete and by a completed
  import, and by nothing else: every other event (opening an operation for editing,
  cancelling, the buttons for a new region or trigger, the change of language) leaves
  the list as it is. The date that the import gives to a row without one is the first
  part of an ISO time stamp, which is never empty.
\<close>

inductive reachable :: "AppState \<Rightarrow> bool" where
  initial: "operations st = [] \<Longrightarrow> reachable st"
| other_event: "reachable st \<Longrightarrow> operations st' = operations st \<Longrightarrow> reachable st'"
| submitted: "reachable st \<Longrightarrow> requiredFilled formState \<Longrightarrow>
     handleSubmit now formState st = Inr st' \<Longrightarrow> reachable st'"
| deleted: "reachable st \<Longrightarrow> reachable (confirmDelete operationToDelete st)"
| imported: "reachable st \<Longrightarrow> \<forall>index. today index \<noteq> [] \<Longrightarrow>
     reachable (fst (handleFileImport now today file st))"

text \<open>
  What holds of every stored operation: the date is not empty, and the two prices are
  numbers, in the normal form of the decimals.
\<close>

definition heldRecord :: "Operation \<Rightarrow> bool" where
  "heldRecord op =
     (date op \<noteq> [] \<and> normal (entryPrice op) \<and> \<not> isNaN (entryPrice op) \<and>
      normal (exitPrice op) \<and> \<not> isNaN (exitPrice op))"

text \<open>
  The fields that a round trip through a CSV file is to keep, and the records whose
  numbers it can read back: the sequence number is finite (\<open>parseInt\<close> does not read
  \<open>Infinity\<close>), and the quantity is below \<open>10 ^ 21\<close> in absolute value (from there on
  \<open>String\<close> uses the exponent notation, of which \<open>parseInt\<close> reads the mantissa only).
\<close>

definition sameTrade :: "Operation \<Rightarrow> Operation \<Rightarrow> bool" where
  "sameTrade a b =
     (asset a = asset b \<and> side a = side b \<and> date a = date b \<and> lots a = lots b \<and>
      entryPrice a = entryPrice b \<and> exitPrice a = exitPrice b \<and> region a = region b \<and>
      structure a = structure b \<and> trigger a = trigger b)"

definition readableNumbers :: "Operation \<Rightarrow> bool" where
  "readableNumbers op = (isFiniteInteger (opNumber op) \<and> \<bar>lots op\<bar> < 10 ^ 21)"

section \<open>Example data\<close>

definition example_op :: "int \<Rightarrow> int \<Rightarrow> string \<Rightarrow> int \<Rightarrow> jsnum \<Rightarrow> Status \<Rightarrow> Operation" where
  "example_op i n d l r s =
     \<lparr>op_id = i, asset = ''WINFUT'', opNumber = n, side = Buy, date = d, lots = l,
      entryPrice = Fin 1 2, exitPrice = Fin 1 2, points = Fin 0 0, result = r,
      status = s, region = ''Barata'', structure = ''A-B-C'', trigger = ''2-2-1''\<rparr>"

definition example_state :: "Operation list \<Rightarrow> AppState" where
  "example_state ops =
     \<lparr>operations = ops, triggers = [''2-2-1''], regions = [''Barata''], editingId = None,
      isAddingRegion = False, isAddingTrigger = False\<rparr>"

definition example_form :: "string \<Rightarrow> string \<Rightarrow> string \<Rightarrow> FormState" where
  "example_form l entry exit =
     \<lparr>form_asset = ''WINFUT'', form_side = Buy, form_date = ''2024-01-10'', form_lots = l,
      form_entryPrice = entry, form_exitPrice = exit, form_pointValue = ''10'',
      form_region = ''Barata'', form_newRegion = [], form_structure = ''A-B-C'',
      form_trigger = ''2-2-1'', form_newTrigger = []\<rparr>"

definition example_now :: "nat \<Rightarrow> int" where
  "example_now index = 1704888000000"

definition example_today :: "nat \<Rightarrow> string" where
  "example_today index = ''2024-01-10''"

section \<open>Sorting and renumbering\<close>

lemma set_sort_insert: "set (sort_insert cmp x ys) = insert x (set ys)"
  by (induction ys) auto

lemma sort_insert_insort_key:
  "\<forall>y\<in>set ys. (cmp x y \<le> 0) = (f x \<le> f y) \<Longrightarrow> sort_insert cmp x ys = insort_key f x ys"
  by (induction ys) auto

lemma js_sort_sort_key:
  "\<forall>x\<in>set xs. \<forall>y\<in>set xs. (cmp x y \<le> 0) = (f x \<le> f y) \<Longrightarrow> js_sort cmp xs = sort_key f xs"
proof (induction xs)
  case Nil
  then show ?case by (simp add: js_sort_def)
next
  case (Cons x xs)
  then have IH: "js_sort cmp xs = sort_key f xs"
    by simp
  have "sort_insert cmp x (sort_key f xs) = insort_key f x (sort_key f xs)"
    using Cons.prems by (intro sort_insert_insort_key) simp
  with IH show ?case
    by (simp add: js_sort_def)
qed

lemma js_sort_byOpNumber: "js_sort byOpNumber xs = sort_key opNumber xs"
  by (rule js_sort_sort_key) (simp add: byOpNumber_def)

lemma map_via_fst: "map (\<lambda>p. g (fst p)) ps = map g (map fst ps)"
  by (simp add: comp_def)

lemma map_via_snd: "map (\<lambda>p. g (snd p)) ps = map g (map snd ps)"
  by (simp add: comp_def)

lemma renumber_opNumbers: "map opNumber (renumber ops) = map int [1..<Suc (length ops)]"
proof -
  have "map opNumber (renumber ops) = map (\<lambda>p. int (fst p) + 1) (enumerate 0 ops)"
    by (simp add: renumber_def case_prod_unfold)
  also have "\<dots> = map (\<lambda>i. int i + 1) (map fst (enumerate 0 ops))"
    by (rule map_via_fst)
  also have "\<dots> = map (\<lambda>i. int i + 1) [0..<length ops]"
    by simp
  also have "\<dots> = map int (map Suc [0..<length ops])"
    by simp
  also have "\<dots> = map int [1..<Suc (length ops)]"
    by (simp only: map_Suc_upt One_nat_def)
  finally show ?thesis .
qed

lemma renumber_others:
  "map (\<lambda>op. op\<lparr>opNumber := n\<rparr>) (renumber ops) = map (\<lambda>op. op\<lparr>opNumber := n\<rparr>) ops"
proof -
  have "map (\<lambda>op. op\<lparr>opNumber := n\<rparr>) (renumber ops)
      = map (\<lambda>p. (snd p)\<lparr>opNumber := n\<rparr>) (enumerate 0 ops)"
    by (simp add: renumber_def case_prod_unfold)
  also have "\<dots> = map (\<lambda>op. op\<lparr>opNumber := n\<rparr>) (map snd (enumerate 0 ops))"
    by (rule map_via_snd)
  also have "\<dots> = map (\<lambda>op. op\<lparr>opNumber := n\<rparr>) ops"
    by simp
  finally show ?thesis .
qed

lemma set_js_sort: "set (js_sort cmp xs) = set xs"
  by (induction xs) (simp_all add: js_sort_def set_sort_insert)

lemma renumber_lots: "op \<in> set (renumber ops) \<Longrightarrow> \<exists>op0\<in>set ops. lots op = lots op0"
  by (auto simp: renumber_def enumerate_eq_zip dest!: set_zip_rightD)

section \<open>Facts about the string operations\<close>

lemma lastIndexOf_from_append:
  "lastIndexOf_from c (xs @ ys) i f
     = lastIndexOf_from c ys (i + int (length xs)) (lastIndexOf_from c xs i f)"
  by (induction xs arbitrary: i f) (simp_all add: add.assoc)

lemma lastIndexOf_from_absent: "c \<notin> set ys \<Longrightarrow> lastIndexOf_from c ys i f = f"
  by (induction ys arbitrary: i f) auto

lemma lastIndexOf_from_bounds:
  "f < i \<Longrightarrow> lastIndexOf_from c xs i f < i + int (length xs)"
proof (induction xs arbitrary: i f)
  case Nil
  then show ?case by simp
next
  case (Cons x xs)
  then have "(if x = c then i else f) < i + 1"
    by simp
  from Cons.IH [OF this] show ?case
    by simp
qed

lemma lastIndexOf_snoc:
  "lastIndexOf (xs @ [x]) c = (if x = c then int (length xs) else lastIndexOf xs c)"
  by (simp add: lastIndexOf_def lastIndexOf_from_append)

lemma lastIndexOf_less: "lastIndexOf xs c < int (length xs)"
  using lastIndexOf_from_bounds [of "- 1" 0 c xs] by (simp add: lastIndexOf_def)

lemma lastIndexOf_absent: "c \<notin> set s \<Longrightarrow> lastIndexOf s c = - 1"
  by (simp add: lastIndexOf_def lastIndexOf_from_absent)

lemma lastIndexOf_last:
  "c \<notin> set ys \<Longrightarrow> lastIndexOf (xs @ c # ys) c = int (length xs)"
  by (simp add: lastIndexOf_def lastIndexOf_from_append lastIndexOf_from_absent)

lemma lastIndexOf_prefix:
  "c \<notin> set ys \<Longrightarrow> lastIndexOf (xs @ ys) c = lastIndexOf xs c"
  by (simp add: lastIndexOf_def lastIndexOf_from_append lastIndexOf_from_absent)

lemma trim_id: "s \<noteq> [] \<Longrightarrow> \<not> is_ws (hd s) \<Longrightarrow> \<not> is_ws (last s) \<Longrightarrow> trim s = s"
proof -
  assume s: "s \<noteq> []" and h: "\<not> is_ws (hd s)" and l: "\<not> is_ws (last s)"
  from s h have 1: "dropWhile is_ws s = s"
    by (cases s) simp_all
  from s l have "dropWhile is_ws (rev s) = rev s"
    by (cases "rev s") (simp_all add: last_rev [symmetric] hd_rev)
  with 1 show ?thesis
    by (simp add: trim_def)
qed

lemma dropWhile_all: "list_all P s \<Longrightarrow> dropWhile P s = []"
  by (induction s) simp_all

lemma trim_blank: "list_all is_ws s \<Longrightarrow> trim s = []"
  by (simp add: trim_def dropWhile_all)

lemma digit_cases:
  "(d::nat) < 10 \<Longrightarrow> d = 0 \<or> d = 1 \<or> d = 2 \<or> d = 3 \<or> d = 4 \<or> d = 5 \<or> d = 6 \<or> d = 7 \<or> d = 8 \<or> d = 9"
  by presburger

lemma digit_char_props:
  assumes "d < 10"
  shows "is_digit (digit_char d)" "digit_val (digit_char d) = int d"
  using digit_cases [OF assms]
  by (auto simp: digit_char_def is_digit_def digit_val_def)

lemma is_digit_not_special:
  assumes "is_digit c"
  shows "\<not> is_ws c" "c \<noteq> CHR ''.''" "c \<noteq> CHR '',''" "c \<noteq> CHR ''-''" "c \<noteq> CHR ''+''"
    "c \<noteq> CHR ''e''" "c \<noteq> CHR ''E''" "c \<noteq> CHR ''I''"
  using assms by (auto simp: is_digit_def is_ws_def)

lemma foldl_digits:
  "foldl (\<lambda>a c. 10 * a + digit_val c) a ds = a * 10 ^ length ds + int_of_digits ds"
proof (induction ds arbitrary: a)
  case Nil
  then show ?case by (simp add: int_of_digits_def)
next
  case (Cons d ds)
  have "foldl (\<lambda>a c. 10 * a + digit_val c) a (d # ds)
      = (10 * a + digit_val d) * 10 ^ length ds + int_of_digits ds"
    by (simp add: Cons.IH)
  moreover have "int_of_digits (d # ds) = digit_val d * 10 ^ length ds + int_of_digits ds"
    by (simp add: int_of_digits_def Cons.IH [of "digit_val d"])
  ultimately show ?case
    by (simp add: algebra_simps)
qed

lemma int_of_digits_append:
  "int_of_digits (xs @ ys) = int_of_digits xs * 10 ^ length ys + int_of_digits ys"
  by (simp add: int_of_digits_def foldl_digits [of "foldl _ _ _"])

lemma int_of_digits_Nil: "int_of_digits [] = 0"
  by (simp add: int_of_digits_def)

lemma int_of_digits_single: "int_of_digits [c] = digit_val c"
  by (simp add: int_of_digits_def)

lemma int_of_digits_Cons:
  "int_of_digits (c # cs) = digit_val c * 10 ^ length cs + int_of_digits cs"
  using int_of_digits_append [of "[c]" cs] by (simp add: int_of_digits_single)

lemma int_of_digits_zeros: "int_of_digits (replicate j CHR ''0'') = 0"
  by (induction j) (simp_all add: int_of_digits_Nil int_of_digits_Cons digit_val_def)

lemma int_of_digits_digits_of_int: "0 \<le> n \<Longrightarrow> int_of_digits (digits_of_int n) = n"
proof (induction n rule: digits_of_int.induct)
  case (1 n)
  show ?case
  proof (cases "n < 10")
    case True
    with 1(2) have "nat n < 10" by simp
    with True 1(2) show ?thesis
      by (simp add: digits_of_int.simps [of n] int_of_digits_single digit_char_props)
  next
    case False
    with 1 have "int_of_digits (digits_of_int (n div 10)) = n div 10"
      by simp
    moreover have "nat (n mod 10) < 10"
      by simp
    ultimately show ?thesis
      using False by (simp add: digits_of_int.simps [of n] int_of_digits_append
          int_of_digits_single digit_char_props)
  qed
qed

lemma digits_of_int_digits: "0 \<le> n \<Longrightarrow> list_all is_digit (digits_of_int n)"
proof (induction n rule: digits_of_int.induct)
  case (1 n)
  show ?case
  proof (cases "n < 10")
    case True
    with 1(2) have "nat n < 10" by simp
    with True show ?thesis
      by (simp add: digits_of_int.simps [of n] digit_char_props)
  next
    case False
    with 1 have "list_all is_digit (digits_of_int (n div 10))"
      by simp
    moreover have "nat (n mod 10) < 10"
      by simp
    ultimately show ?thesis
      using False by (simp add: digits_of_int.simps [of n] digit_char_props)
  qed
qed

lemma digits_of_int_nonempty: "digits_of_int n \<noteq> []"
  by (simp add: digits_of_int.simps [of n])

lemma digits_of_int_lower: "0 < n \<Longrightarrow> 10 ^ (length (digits_of_int n) - 1) \<le> n"
proof (induction n rule: digits_of_int.induct)
  case (1 n)
  show ?case
  proof (cases "n < 10")
    case True
    with 1 show ?thesis
      by (simp add: digits_of_int.simps [of n])
  next
    case False
    then have "0 < n div 10" by simp
    with 1 False have "10 ^ (length (digits_of_int (n div 10)) - 1) \<le> n div 10"
      by simp
    then have "10 * 10 ^ (length (digits_of_int (n div 10)) - 1) \<le> n"
      by simp
    moreover have "length (digits_of_int (n div 10)) \<noteq> 0"
      by (simp add: digits_of_int_nonempty)
    ultimately show ?thesis
      using False by (simp add: digits_of_int.simps [of n] power_Suc [symmetric]
          del: power_Suc)
  qed
qed

section \<open>Facts about the decimal normal form\<close>

lemma mkFin_zero: "mkFin 0 e = Fin 0 0"
  by (simp add: mkFin.simps)

lemma mkFin_normal: "m mod 10 \<noteq> 0 \<Longrightarrow> mkFin m e = Fin m e"
  by (auto simp: mkFin.simps [of m e])

lemma mkFin_times10: "k \<noteq> 0 \<Longrightarrow> mkFin (10 * k) e = mkFin k (e + 1)"
  by (subst mkFin.simps) simp

lemma mkFin_shift: "m mod 10 \<noteq> 0 \<Longrightarrow> mkFin (m * 10 ^ j) e = Fin m (e + int j)"
proof (induction j arbitrary: e)
  case 0
  then show ?case by (simp add: mkFin_normal)
next
  case (Suc j)
  from Suc.prems have "m * 10 ^ j \<noteq> 0" by auto
  from mkFin_times10 [OF this] have "mkFin (m * 10 ^ Suc j) e = mkFin (m * 10 ^ j) (e + 1)"
    by (simp add: mult.left_commute)
  with Suc show ?case
    by simp
qed

lemma mkFin_decompose:
  "\<exists>m j. mkFin n e = Fin m (if n = 0 then 0 else e + int j) \<and> n = m * 10 ^ j \<and>
         (n \<noteq> 0 \<longrightarrow> m mod 10 \<noteq> 0)"
proof (induction n e rule: mkFin.induct)
  case (1 m e)
  show ?case
  proof (cases "m = 0")
    case True
    then have "mkFin m e = Fin 0 (if m = 0 then 0 else e + int 0) \<and> m = 0 * 10 ^ 0 \<and>
        (m \<noteq> 0 \<longrightarrow> (0::int) mod 10 \<noteq> 0)"
      by (simp add: mkFin_zero)
    then show ?thesis by blast
  next
    case False
    show ?thesis
    proof (cases "m mod 10 = 0")
      case True
      with False 1 obtain m' j where IH: "mkFin (m div 10) (e + 1)
          = Fin m' (if m div 10 = 0 then 0 else e + 1 + int j)"
        "m div 10 = m' * 10 ^ j" "m div 10 \<noteq> 0 \<longrightarrow> m' mod 10 \<noteq> 0"
        by blast
      from True have m: "m = 10 * (m div 10)"
        by auto
      with False have nz: "m div 10 \<noteq> 0"
        by auto
      from m IH(2) have "m = m' * 10 ^ Suc j"
        by simp
      moreover from False True have "mkFin m e = mkFin (m div 10) (e + 1)"
        by (simp add: mkFin.simps [of m e])
      ultimately have "mkFin m e = Fin m' (if m = 0 then 0 else e + int (Suc j)) \<and>
          m = m' * 10 ^ Suc j \<and> (m \<noteq> 0 \<longrightarrow> m' mod 10 \<noteq> 0)"
        using IH(1,3) nz False by simp
      then show ?thesis by blast
    next
      case nd: False
      with False have "mkFin m e = Fin m (if m = 0 then 0 else e + int 0) \<and> m = m * 10 ^ 0 \<and>
          (m \<noteq> 0 \<longrightarrow> m mod 10 \<noteq> 0)"
        by (simp add: mkFin_normal)
      then show ?thesis by blast
    qed
  qed
qed

lemma mkFin_Fin: "\<exists>m e'. mkFin n e = Fin m e'"
  by (induction n e rule: mkFin.induct) (simp add: mkFin.simps)

lemma mkFin_not_NaN: "mkFin n e \<noteq> NaN"
  using mkFin_Fin [of n e] by auto

lemma normal_mkFin: "normal (mkFin n e)"
proof (induction n e rule: mkFin.induct)
  case (1 m e)
  then show ?case
    by (simp add: mkFin.simps [of m e] normal_def)
qed

lemma takeWhile_digits:
  assumes "list_all is_digit ds" "r = [] \<or> \<not> is_digit (hd r)"
  shows "takeWhile is_digit (ds @ r) = ds" "dropWhile is_digit (ds @ r) = r"
proof -
  from assms(2) have r: "takeWhile is_digit r = []" "dropWhile is_digit r = r"
    by (cases r; simp)+
  from assms(1) have a: "\<forall>x\<in>set ds. is_digit x"
    by (simp add: list_all_iff)
  from a r show "takeWhile is_digit (ds @ r) = ds"
    by (simp add: takeWhile_append2)
  from a r show "dropWhile is_digit (ds @ r) = r"
    by (simp add: dropWhile_append2)
qed

lemma read_exponent_Nil: "read_exponent [] = 0"
  by (simp add: read_exponent_def)

lemma takeWhile_all_digits: "list_all is_digit ds \<Longrightarrow> takeWhile is_digit ds = ds"
  by (simp add: list_all_iff)

lemma read_exponent_signed:
  assumes "list_all is_digit ds" "ds \<noteq> []"
  shows "read_exponent (CHR ''e'' # CHR ''+'' # ds) = int_of_digits ds"
    "read_exponent (CHR ''e'' # CHR ''-'' # ds) = - int_of_digits ds"
  using assms(2) by (simp_all add: read_exponent_def takeWhile_all_digits [OF assms(1)])

lemma read_decimal_integer:
  assumes "list_all is_digit ip" "ip \<noteq> []"
    "r = [] \<or> (\<not> is_digit (hd r) \<and> hd r \<noteq> CHR ''.'')"
  shows "read_decimal sg (ip @ r) = mkFin (sg * int_of_digits ip) (read_exponent r)"
proof -
  from assms(3) have "r = [] \<or> \<not> is_digit (hd r)" by blast
  note tw = takeWhile_digits [OF assms(1) this]
  show ?thesis
  proof (cases r)
    case Nil
    with assms(2) show ?thesis
      by (simp add: read_decimal_def Let_def takeWhile_all_digits [OF assms(1)]
          dropWhile_all [OF assms(1)])
  next
    case (Cons c cs)
    with assms(3) have "c \<noteq> CHR ''.''" by simp
    with assms(2) tw Cons show ?thesis
      by (simp add: read_decimal_def Let_def)
  qed
qed

lemma read_decimal_fraction:
  assumes "list_all is_digit ip" "list_all is_digit fp" "ip @ fp \<noteq> []"
    "r = [] \<or> \<not> is_digit (hd r)"
  shows "read_decimal sg (ip @ CHR ''.'' # fp @ r)
       = mkFin (sg * int_of_digits (ip @ fp)) (read_exponent r - int (length fp))"
proof -
  have "CHR ''.'' # fp @ r = [] \<or> \<not> is_digit (hd (CHR ''.'' # fp @ r))"
    by (simp add: is_digit_def)
  note tw1 = takeWhile_digits [OF assms(1) this]
  note tw2 = takeWhile_digits [OF assms(2,4)]
  have "read_decimal sg (ip @ CHR ''.'' # fp @ r)
      = (if ip = [] \<and> fp = [] then NaN
         else mkFin (sg * int_of_digits (ip @ fp)) (read_exponent r - int (length fp)))"
    by (simp add: read_decimal_def tw1 tw2 Let_def)
  with assms(3) show ?thesis
    by auto
qed

lemma parseFloat_unsigned:
  assumes "s \<noteq> []" "is_digit (hd s) \<or> hd s = CHR ''.''"
  shows "parseFloat s = read_decimal 1 s"
proof -
  from assms obtain c cs where s: "s = c # cs" "is_digit c \<or> c = CHR ''.''"
    by (cases s) auto
  then have c: "\<not> is_ws c" "c \<noteq> CHR ''-''" "c \<noteq> CHR ''+''" "c \<noteq> CHR ''I''"
    by (auto simp: is_digit_def is_ws_def)
  then show ?thesis
    by (simp add: parseFloat_def s)
qed

lemma parseFloat_negative:
  assumes "s \<noteq> []" "is_digit (hd s)"
  shows "parseFloat (CHR ''-'' # s) = read_decimal (- 1) s"
proof -
  from assms obtain c cs where s: "s = c # cs" "is_digit c"
    by (cases s) auto
  then have c: "c \<noteq> CHR ''I''"
    by (auto simp: is_digit_def)
  then show ?thesis
    by (simp add: parseFloat_def s is_ws_def)
qed

section \<open>Facts about the currency parser\<close>

lemma lastSeparatorIsComma_snoc:
  "lastSeparatorIsComma (xs @ [x])
     = (if x = CHR '','' then True else if x = CHR ''.'' then False else lastSeparatorIsComma xs)"
  by (simp add: lastSeparatorIsComma_def)

lemma lastComma_after_lastDot:
  "(lastIndexOf s CHR '','' > lastIndexOf s CHR ''.'') = lastSeparatorIsComma s"
proof (induction s rule: rev_induct)
  case Nil
  then show ?case
    by (simp add: lastIndexOf_def lastSeparatorIsComma_def)
next
  case (snoc x xs)
  show ?case
    using lastIndexOf_less [of xs "CHR '',''"] lastIndexOf_less [of xs "CHR ''.''"] snoc
    by (simp add: lastIndexOf_snoc lastSeparatorIsComma_snoc)
qed

lemma normalizeSeparators_spec: "normalizeSeparators s = specNormalize s"
  by (simp add: normalizeSeparators_def specNormalize_def Let_def lastComma_after_lastDot)

lemma parseCurrency_string:
  "parseCurrency (VStr s)
     = (if trim s = [] then Fin 0 0
        else if isNaN (parseFloat (specNormalize (trim s))) then Fin 0 0
        else parseFloat (specNormalize (trim s)))"
  by (simp add: Let_def normalizeSeparators_spec)

lemma replace_first_here: "c \<notin> set xs \<Longrightarrow> replace_first c d (xs @ c # ys) = xs @ d # ys"
  by (induction xs) auto

lemma remove_sep_grouped:
  "list_all (\<lambda>c. is_digit c \<or> c = sep) us \<Longrightarrow> \<not> is_digit sep \<Longrightarrow>
   remove_all sep us = filter is_digit us"
  by (induction us) (auto simp: remove_all_def)

lemma remove_all_digits: "list_all is_digit fp \<Longrightarrow> \<not> is_digit c \<Longrightarrow> remove_all c fp = fp"
  by (induction fp) (auto simp: remove_all_def)

lemma digits_no_char: "list_all is_digit fp \<Longrightarrow> \<not> is_digit c \<Longrightarrow> c \<notin> set fp"
  by (auto simp: list_all_iff)

lemma grouped_no_char:
  "list_all (\<lambda>c. is_digit c \<or> c = sep) us \<Longrightarrow> \<not> is_digit c \<Longrightarrow> c \<noteq> sep \<Longrightarrow> c \<notin> set us"
  by (auto simp: list_all_iff)

lemma seps_not_digits: "\<not> is_digit CHR '',''" "\<not> is_digit CHR ''.''"
  by (simp_all add: is_digit_def)

lemma normalizeSeparators_dot_decimal:
  assumes "list_all (\<lambda>c. is_digit c \<or> c = CHR '','') us" "list_all is_digit fp"
  shows "normalizeSeparators (us @ CHR ''.'' # fp) = filter is_digit us @ CHR ''.'' # fp"
proof -
  let ?s = "us @ CHR ''.'' # fp"
  have nd: "CHR ''.'' \<notin> set fp" "CHR '','' \<notin> set fp" "CHR ''.'' \<notin> set us"
    using assms by (simp_all add: digits_no_char grouped_no_char seps_not_digits)
  have dot: "lastIndexOf ?s CHR ''.'' = int (length us)"
    using nd by (simp add: lastIndexOf_last)
  have "lastIndexOf ?s CHR '','' = lastIndexOf us CHR '',''"
    using nd lastIndexOf_prefix [of "CHR '',''" "CHR ''.'' # fp" us] by simp
  then have comma: "lastIndexOf ?s CHR '','' < int (length us)"
    by (simp add: lastIndexOf_less)
  have r: "remove_all CHR '','' ?s = filter is_digit us @ CHR ''.'' # fp"
    using assms by (simp add: remove_all_def [of _ "_ @ _"]
        remove_sep_grouped [unfolded remove_all_def] remove_all_digits [unfolded remove_all_def]
        seps_not_digits)
  have c: "count_char CHR ''.'' (filter is_digit us @ CHR ''.'' # fp) = 1"
    using nd(1) by (simp add: count_char_def seps_not_digits filter_empty_conv
        cong: conj_cong) (auto simp: filter_empty_conv seps_not_digits)
  from dot comma show ?thesis
    by (simp add: normalizeSeparators_def Let_def r c)
qed

lemma normalizeSeparators_comma_decimal:
  assumes "list_all (\<lambda>c. is_digit c \<or> c = CHR ''.'') br" "list_all is_digit fp"
  shows "normalizeSeparators (br @ CHR '','' # fp) = filter is_digit br @ CHR ''.'' # fp"
proof -
  let ?s = "br @ CHR '','' # fp"
  have nd: "CHR ''.'' \<notin> set fp" "CHR '','' \<notin> set fp" "CHR '','' \<notin> set br"
    using assms by (simp_all add: digits_no_char grouped_no_char seps_not_digits)
  have comma: "lastIndexOf ?s CHR '','' = int (length br)"
    using nd by (simp add: lastIndexOf_last)
  have "lastIndexOf ?s CHR ''.'' = lastIndexOf br CHR ''.''"
    using nd lastIndexOf_prefix [of "CHR ''.''" "CHR '','' # fp" br] by simp
  then have dot: "lastIndexOf ?s CHR ''.'' < int (length br)"
    by (simp add: lastIndexOf_less)
  have r: "remove_all CHR ''.'' ?s = filter is_digit br @ CHR '','' # fp"
    using assms by (simp add: remove_all_def [of _ "_ @ _"]
        remove_sep_grouped [unfolded remove_all_def] remove_all_digits [unfolded remove_all_def]
        seps_not_digits)
  have "CHR '','' \<notin> set (filter is_digit br)"
    by (simp add: seps_not_digits)
  then have f: "replace_first CHR '','' CHR ''.'' (filter is_digit br @ CHR '','' # fp)
      = filter is_digit br @ CHR ''.'' # fp"
    by (rule replace_first_here)
  from dot comma show ?thesis
    by (simp add: normalizeSeparators_def Let_def r f)
qed

lemma parseFloat_plain_decimal:
  assumes "list_all is_digit ds" "list_all is_digit fp" "fp \<noteq> []"
  shows "parseFloat (ds @ CHR ''.'' # fp)
       = mkFin (int_of_digits (ds @ fp)) (- int (length fp))"
proof -
  have h: "is_digit (hd (ds @ CHR ''.'' # fp)) \<or> hd (ds @ CHR ''.'' # fp) = CHR ''.''"
    using assms(1) by (cases ds) simp_all
  have "parseFloat (ds @ CHR ''.'' # fp) = read_decimal 1 (ds @ CHR ''.'' # fp @ [])"
    using parseFloat_unsigned [OF _ h] by simp
  also have "\<dots> = mkFin (1 * int_of_digits (ds @ fp)) (read_exponent [] - int (length fp))"
    using assms by (intro read_decimal_fraction) simp_all
  finally show ?thesis
    by (simp add: read_exponent_Nil)
qed

lemma swap_separators_grouped:
  assumes "list_all (\<lambda>c. is_digit c \<or> c = CHR '','') us" "list_all is_digit fp"
  shows "swap_separators (us @ CHR ''.'' # fp) = swap_separators us @ CHR '','' # fp"
    "list_all (\<lambda>c. is_digit c \<or> c = CHR ''.'') (swap_separators us)"
    "filter is_digit (swap_separators us) = filter is_digit us"
proof -
  have "swap_separators fp = fp"
    using assms(2) by (induction fp) (auto simp: swap_separators_def seps_not_digits)
  then show "swap_separators (us @ CHR ''.'' # fp) = swap_separators us @ CHR '','' # fp"
    by (simp add: swap_separators_def)
  show "list_all (\<lambda>c. is_digit c \<or> c = CHR ''.'') (swap_separators us)"
    using assms(1) by (induction us) (auto simp: swap_separators_def seps_not_digits)
  show "filter is_digit (swap_separators us) = filter is_digit us"
    using assms(1) by (induction us) (auto simp: swap_separators_def seps_not_digits)
qed

lemma trim_numeral:
  assumes "list_all (\<lambda>c. is_digit c \<or> c = sep) us" "\<not> is_ws sep" "\<not> is_ws d"
    "list_all is_digit fp" "fp \<noteq> []"
  shows "trim (us @ d # fp) = us @ d # fp"
proof (rule trim_id)
  show "us @ d # fp \<noteq> []" by simp
  show "\<not> is_ws (hd (us @ d # fp))"
    using assms(1-3) by (cases us) (auto simp: is_digit_not_special)
  have "is_digit (last fp)"
    using assms(4,5) by (simp add: list_all_iff)
  then show "\<not> is_ws (last (us @ d # fp))"
    using assms(5) by (simp add: is_digit_not_special)
qed

section \<open>Printing a number and reading it back\<close>

lemma count_char_append: "count_char c (xs @ ys) = count_char c xs + count_char c ys"
  by (simp add: count_char_def)

lemma count_char_absent: "c \<notin> set xs \<Longrightarrow> count_char c xs = 0"
  by (induction xs) (auto simp: count_char_def)

lemma count_char_digits: "list_all is_digit ds \<Longrightarrow> \<not> is_digit c \<Longrightarrow> count_char c ds = 0"
  by (simp add: count_char_absent digits_no_char)

lemma lastIndexOf_lower: "- 1 \<le> lastIndexOf s c"
proof (induction s rule: rev_induct)
  case Nil
  then show ?case by (simp add: lastIndexOf_def)
next
  case (snoc x xs)
  then show ?case by (simp add: lastIndexOf_snoc)
qed

lemma remove_all_absent: "c \<notin> set s \<Longrightarrow> remove_all c s = s"
  by (induction s) (auto simp: remove_all_def)

text \<open>A string without comma and white space and with at most one dot is parsed as it is.\<close>

lemma parseCurrency_plain:
  assumes "s \<noteq> []" "list_all (\<lambda>c. c \<noteq> CHR '','' \<and> \<not> is_ws c) s" "count_char CHR ''.'' s \<le> 1"
  shows "parseCurrency (VStr s) = (if isNaN (parseFloat s) then Fin 0 0 else parseFloat s)"
proof -
  from assms(2) have nc: "CHR '','' \<notin> set s" and nw: "\<forall>c\<in>set s. \<not> is_ws c"
    by (auto simp: list_all_iff)
  from assms(1) nw have "\<not> is_ws (hd s)" "\<not> is_ws (last s)"
    by simp_all
  with assms(1) have t: "trim s = s"
    by (rule trim_id)
  have "\<not> lastIndexOf s CHR '','' > lastIndexOf s CHR ''.''"
    using lastIndexOf_lower [of s "CHR ''.''"] nc by (simp add: lastIndexOf_absent)
  with assms(3) nc have "normalizeSeparators s = s"
    by (simp add: normalizeSeparators_def Let_def remove_all_absent)
  with t assms(1) show ?thesis
    by (simp add: Let_def)
qed

lemma plain_digits:
  "list_all is_digit xs \<Longrightarrow> list_all (\<lambda>c. c \<noteq> CHR '','' \<and> \<not> is_ws c) xs"
  by (auto simp: list_all_iff is_digit_not_special)

lemma digits_take_drop:
  assumes "list_all is_digit xs"
  shows "list_all is_digit (take n xs)" "list_all is_digit (drop n xs)"
  using assms by (auto simp: list_all_iff dest: in_set_takeD in_set_dropD)

lemma digits_zeros: "list_all is_digit (replicate j CHR ''0'')"
  by (simp add: list_all_iff is_digit_def)

lemma exponent_suffix:
  fixes x :: int
  defines "es \<equiv> (if x < 0 then ''-'' else ''+'') @ digits_of_int \<bar>x\<bar>"
  shows "read_exponent (CHR ''e'' # es) = x"
    "list_all (\<lambda>c. c \<noteq> CHR '','' \<and> \<not> is_ws c) (CHR ''e'' # es)"
    "count_char CHR ''.'' (CHR ''e'' # es) = 0"
proof -
  have d: "list_all is_digit (digits_of_int \<bar>x\<bar>)" "digits_of_int \<bar>x\<bar> \<noteq> []"
    "int_of_digits (digits_of_int \<bar>x\<bar>) = \<bar>x\<bar>"
    by (simp_all add: digits_of_int_digits digits_of_int_nonempty int_of_digits_digits_of_int)
  show "read_exponent (CHR ''e'' # es) = x"
  proof (cases "x < 0")
    case True
    then have "es = CHR ''-'' # digits_of_int \<bar>x\<bar>"
      by (simp add: es_def)
    with read_exponent_signed(2) [OF d(1,2)] d(3) True show ?thesis
      by simp
  next
    case False
    then have "es = CHR ''+'' # digits_of_int \<bar>x\<bar>"
      by (simp add: es_def)
    with read_exponent_signed(1) [OF d(1,2)] d(3) False show ?thesis
      by simp
  qed
  show "list_all (\<lambda>c. c \<noteq> CHR '','' \<and> \<not> is_ws c) (CHR ''e'' # es)"
    using plain_digits [OF d(1)] by (simp add: es_def is_ws_def)
  show "count_char CHR ''.'' (CHR ''e'' # es) = 0"
    using count_char_digits [OF d(1), of "CHR ''.''"]
    by (simp add: es_def count_char_def seps_not_digits)
qed

lemma toString_pos_roundtrip:
  assumes "0 < m" "m mod 10 \<noteq> 0" "sg = 1 \<or> sg = - 1"
  shows "read_decimal sg (toString_pos m e) = Fin (sg * m) e
       \<and> toString_pos m e \<noteq> [] \<and> is_digit (hd (toString_pos m e))
       \<and> list_all (\<lambda>c. c \<noteq> CHR '','' \<and> \<not> is_ws c) (toString_pos m e)
       \<and> count_char CHR ''.'' (toString_pos m e) \<le> 1"
proof -
  define ds where "ds = digits_of_int m"
  define k where "k = int (length ds)"
  define n where "n = k + e"
  define es where "es = (if n - 1 < 0 then ''-'' else ''+'') @ digits_of_int \<bar>n - 1\<bar>"
  have d: "list_all is_digit ds" "ds \<noteq> []" "int_of_digits ds = m"
    using assms(1)
    by (simp_all add: ds_def digits_of_int_digits digits_of_int_nonempty
        int_of_digits_digits_of_int)
  from d(2) have k1: "1 \<le> k"
    by (cases ds) (simp_all add: k_def)
  from d(1,2) have hd: "is_digit (hd ds)"
    by (cases ds) simp_all
  have pd: "list_all (\<lambda>c. c \<noteq> CHR '','' \<and> \<not> is_ws c) ds"
    using d(1) by (rule plain_digits)
  have cd: "count_char CHR ''.'' ds = 0"
    using d(1) by (simp add: count_char_digits seps_not_digits)
  from assms(2,3) have "(sg * m) mod 10 \<noteq> 0"
    by (auto simp: mod_eq_0_iff_dvd)
  then have norm: "mkFin (sg * m) x = Fin (sg * m) x" for x
    by (rule mkFin_normal)
  note ex = exponent_suffix [of "n - 1", folded es_def]
  have U: "toString_pos m e =
     (if k \<le> n \<and> n \<le> 21 then ds @ replicate (nat (n - k)) CHR ''0''
      else if 0 < n \<and> n \<le> 21 then take (nat n) ds @ ''.'' @ drop (nat n) ds
      else if - 6 < n \<and> n \<le> 0 then ''0.'' @ replicate (nat (- n)) CHR ''0'' @ ds
      else if k = 1 then ds @ ''e'' @ es
      else take 1 ds @ ''.'' @ drop 1 ds @ ''e'' @ es)"
    by (simp add: toString_pos_def Let_def ds_def k_def n_def es_def)
  consider (integer) "k \<le> n" "n \<le> 21"
    | (fraction) "n < k" "0 < n" "n \<le> 21"
    | (small) "- 6 < n" "n \<le> 0"
    | (exponent1) "n \<le> - 6 \<or> 21 < n" "k = 1"
    | (exponent) "n \<le> - 6 \<or> 21 < n" "k \<noteq> 1"
    by linarith
  then show ?thesis
  proof cases
    case integer
    define zs where "zs = replicate (nat (n - k)) CHR ''0''"
    have S: "toString_pos m e = ds @ zs"
      using integer by (simp add: U zs_def)
    have dz: "list_all is_digit (ds @ zs)"
      using d(1) by (simp add: zs_def digits_zeros)
    have "int_of_digits (ds @ zs) = m * 10 ^ nat (n - k)"
      by (simp add: int_of_digits_append d(3) zs_def int_of_digits_zeros)
    moreover have "read_decimal sg ((ds @ zs) @ [])
        = mkFin (sg * int_of_digits (ds @ zs)) (read_exponent [])"
      using dz d(2) by (intro read_decimal_integer) simp_all
    ultimately have "read_decimal sg (ds @ zs) = mkFin (sg * m * 10 ^ nat (n - k)) 0"
      by (simp add: read_exponent_Nil mult.assoc)
    also have "\<dots> = Fin (sg * m) (0 + int (nat (n - k)))"
      using \<open>(sg * m) mod 10 \<noteq> 0\<close> by (rule mkFin_shift)
    also have "\<dots> = Fin (sg * m) e"
      using integer by (simp add: n_def)
    finally have 1: "read_decimal sg (toString_pos m e) = Fin (sg * m) e"
      by (simp add: S)
    have 2: "toString_pos m e \<noteq> []" "is_digit (hd (toString_pos m e))"
      using d(2) hd by (simp_all add: S)
    have 3: "list_all (\<lambda>c. c \<noteq> CHR '','' \<and> \<not> is_ws c) (toString_pos m e)"
      unfolding S using dz by (rule plain_digits)
    have 4: "count_char CHR ''.'' (toString_pos m e) \<le> 1"
      unfolding S using dz by (simp add: count_char_digits seps_not_digits)
    from 1 2 3 4 show ?thesis by iprover
  next
    case fraction
    define ip where "ip = take (nat n) ds"
    define fp where "fp = drop (nat n) ds"
    have S: "toString_pos m e = ip @ CHR ''.'' # fp"
      using fraction by (simp add: U ip_def fp_def)
    have dd: "list_all is_digit ip" "list_all is_digit fp"
      using d(1) by (simp_all add: ip_def fp_def digits_take_drop)
    have ne: "ip \<noteq> []" "fp \<noteq> []"
      using fraction d(2) by (simp_all add: ip_def fp_def k_def)
    have j: "ip @ fp = ds"
      by (simp add: ip_def fp_def)
    have l: "int (length fp) = k - n"
      using fraction by (simp add: fp_def k_def)
    have "read_decimal sg (ip @ CHR ''.'' # fp @ [])
        = mkFin (sg * int_of_digits (ip @ fp)) (read_exponent [] - int (length fp))"
      using dd ne by (intro read_decimal_fraction) simp_all
    then have 1: "read_decimal sg (toString_pos m e) = Fin (sg * m) e"
      by (simp add: S j d(3) l read_exponent_Nil norm n_def)
    have 2: "toString_pos m e \<noteq> []" "is_digit (hd (toString_pos m e))"
      using ne hd fraction by (simp_all add: S ip_def hd_append)
    have 3: "list_all (\<lambda>c. c \<noteq> CHR '','' \<and> \<not> is_ws c) (toString_pos m e)"
      using plain_digits [OF dd(1)] plain_digits [OF dd(2)] by (simp add: S is_ws_def)
    have "count_char CHR ''.'' (toString_pos m e)
        = count_char CHR ''.'' ip + (1 + count_char CHR ''.'' fp)"
      unfolding S count_char_append by (simp add: count_char_def)
    then have 4: "count_char CHR ''.'' (toString_pos m e) \<le> 1"
      using dd by (simp add: count_char_digits seps_not_digits)
    from 1 2 3 4 show ?thesis by iprover
  next
    case small
    define zs where "zs = replicate (nat (- n)) CHR ''0''"
    have S: "toString_pos m e = ''0'' @ CHR ''.'' # (zs @ ds)"
      using small k1 by (simp add: U zs_def)
    have dd: "list_all is_digit ''0''" "list_all is_digit (zs @ ds)"
      using d(1) by (simp_all add: zs_def digits_zeros is_digit_def)
    have v: "int_of_digits (''0'' @ zs @ ds) = m"
      by (simp add: int_of_digits_append int_of_digits_Cons [of "CHR ''0''"] d(3) zs_def
          int_of_digits_zeros digit_val_def int_of_digits_Nil)
    have l: "int (length (zs @ ds)) = k - n"
      using small by (simp add: zs_def k_def)
    have "read_decimal sg (''0'' @ CHR ''.'' # (zs @ ds) @ [])
        = mkFin (sg * int_of_digits (''0'' @ zs @ ds)) (read_exponent [] - int (length (zs @ ds)))"
      using dd by (intro read_decimal_fraction) simp_all
    then have 1: "read_decimal sg (toString_pos m e) = Fin (sg * m) e"
      unfolding S v l by (simp add: read_exponent_Nil norm n_def)
    have 2: "toString_pos m e \<noteq> []" "is_digit (hd (toString_pos m e))"
      by (simp_all add: S is_digit_def)
    have 3: "list_all (\<lambda>c. c \<noteq> CHR '','' \<and> \<not> is_ws c) (toString_pos m e)"
      using plain_digits [OF dd(2)] by (simp add: S is_ws_def)
    have 4: "count_char CHR ''.'' (toString_pos m e) \<le> 1"
      using count_char_digits [OF dd(2), of "CHR ''.''"]
      by (simp add: S seps_not_digits count_char_def)
    from 1 2 3 4 show ?thesis by iprover
  next
    case exponent1
    have S: "toString_pos m e = ds @ CHR ''e'' # es"
      using exponent1 k1 by (auto simp: U)
    have "read_decimal sg (ds @ CHR ''e'' # es)
        = mkFin (sg * int_of_digits ds) (read_exponent (CHR ''e'' # es))"
      using d(1,2) by (intro read_decimal_integer) (simp_all add: is_digit_def)
    then have 1: "read_decimal sg (toString_pos m e) = Fin (sg * m) e"
      using exponent1(2) by (simp add: S d(3) ex(1) norm n_def)
    have 2: "toString_pos m e \<noteq> []" "is_digit (hd (toString_pos m e))"
      using d(2) hd by (simp_all add: S)
    have 3: "list_all (\<lambda>c. c \<noteq> CHR '','' \<and> \<not> is_ws c) (toString_pos m e)"
      using pd ex(2) by (simp add: S)
    have 4: "count_char CHR ''.'' (toString_pos m e) \<le> 1"
      using cd ex(3) by (simp add: S count_char_append)
    from 1 2 3 4 show ?thesis by iprover
  next
    case exponent
    define ip where "ip = take 1 ds"
    define fp where "fp = drop 1 ds"
    have S: "toString_pos m e = ip @ CHR ''.'' # fp @ CHR ''e'' # es"
      using exponent k1 by (auto simp: U ip_def fp_def)
    have dd: "list_all is_digit ip" "list_all is_digit fp"
      using d(1) by (simp_all add: ip_def fp_def digits_take_drop)
    have ne: "ip \<noteq> []"
      using d(2) by (simp add: ip_def)
    have j: "ip @ fp = ds"
      by (simp add: ip_def fp_def)
    have l: "int (length fp) = k - 1"
      using k1 by (simp add: fp_def k_def)
    have "read_decimal sg (ip @ CHR ''.'' # fp @ CHR ''e'' # es)
        = mkFin (sg * int_of_digits (ip @ fp)) (read_exponent (CHR ''e'' # es) - int (length fp))"
      using dd ne by (intro read_decimal_fraction) (simp_all add: is_digit_def)
    then have 1: "read_decimal sg (toString_pos m e) = Fin (sg * m) e"
      by (simp add: S j d(3) l ex(1) norm n_def)
    have 2: "toString_pos m e \<noteq> []" "is_digit (hd (toString_pos m e))"
      using ne hd d(2) by (simp_all add: S ip_def hd_append)
    have 3: "list_all (\<lambda>c. c \<noteq> CHR '','' \<and> \<not> is_ws c) (toString_pos m e)"
      using plain_digits [OF dd(1)] plain_digits [OF dd(2)] ex(2) by (simp add: S is_ws_def)
    have "count_char CHR ''.'' (toString_pos m e)
        = count_char CHR ''.'' ip + (1 + (count_char CHR ''.'' fp + count_char CHR ''.'' (CHR ''e'' # es)))"
      unfolding S count_char_append by (simp add: count_char_def)
    then have 4: "count_char CHR ''.'' (toString_pos m e) \<le> 1"
      using dd ex(3) by (simp add: count_char_digits seps_not_digits)
    from 1 2 3 4 show ?thesis by iprover
  qed
qed

lemma parseCurrency_toString:
  assumes "normal x" "\<not> isNaN x"
  shows "parseCurrency (VStr (toString x)) = x"
proof (cases x)
  case NaN
  with assms(2) show ?thesis by (simp add: isNaN_def)
next
  case PInf
  have "parseCurrency (VStr ''Infinity'') = PInf"
    by code_simp
  with PInf show ?thesis by (simp del: parseCurrency.simps)
next
  case NInf
  have "parseCurrency (VStr ''-Infinity'') = NInf"
    by code_simp
  with NInf show ?thesis by (simp del: parseCurrency.simps)
next
  case (Fin m e)
  consider (zero) "m = 0" | (pos) "0 < m" | (neg) "m < 0"
    by linarith
  then show ?thesis
  proof cases
    case zero
    with assms(1) Fin have "e = 0"
      by (simp add: normal_def)
    moreover have "parseCurrency (VStr ''0'') = Fin 0 0"
      by code_simp
    ultimately show ?thesis
      using zero Fin by (simp del: parseCurrency.simps)
  next
    case pos
    with assms(1) Fin have nz: "m mod 10 \<noteq> 0"
      by (simp add: normal_def)
    let ?S = "toString_pos m e"
    from toString_pos_roundtrip [OF pos nz, of 1 e] have
      r: "read_decimal 1 ?S = Fin m e" and ne: "?S \<noteq> []" and hd: "is_digit (hd ?S)"
      and pl: "list_all (\<lambda>c. c \<noteq> CHR '','' \<and> \<not> is_ws c) ?S"
      and ct: "count_char CHR ''.'' ?S \<le> 1"
      by simp_all
    have "parseFloat ?S = Fin m e"
      using parseFloat_unsigned [OF ne] hd r by simp
    with parseCurrency_plain [OF ne pl ct] have "parseCurrency (VStr ?S) = Fin m e"
      by (simp add: isNaN_def)
    with pos Fin show ?thesis
      by (simp del: parseCurrency.simps)
  next
    case neg
    with assms(1) Fin have "m mod 10 \<noteq> 0"
      by (simp add: normal_def)
    then have nz: "(- m) mod 10 \<noteq> 0"
      by (simp add: mod_eq_0_iff_dvd)
    from neg have pos: "0 < - m" by simp
    let ?S = "toString_pos (- m) e"
    from toString_pos_roundtrip [OF pos nz, of "- 1" e] have
      r: "read_decimal (- 1) ?S = Fin m e" and ne: "?S \<noteq> []" and hd: "is_digit (hd ?S)"
      and pl: "list_all (\<lambda>c. c \<noteq> CHR '','' \<and> \<not> is_ws c) ?S"
      and ct: "count_char CHR ''.'' ?S \<le> 1"
      by simp_all
    have pf: "parseFloat (CHR ''-'' # ?S) = Fin m e"
      using parseFloat_negative [OF ne hd] r by simp
    have "parseCurrency (VStr (CHR ''-'' # ?S))
        = (if isNaN (parseFloat (CHR ''-'' # ?S)) then Fin 0 0 else parseFloat (CHR ''-'' # ?S))"
      using pl ct by (intro parseCurrency_plain) (simp_all add: is_ws_def count_char_def)
    with pf have "parseCurrency (VStr (CHR ''-'' # ?S)) = Fin m e"
      by (simp add: isNaN_def)
    with neg Fin show ?thesis
      by (simp del: parseCurrency.simps)
  qed
qed

lemma Number_overflow_large: "10 ^ 21 < Number_overflow"
  by (simp add: Number_overflow_def)

lemma isFiniteInteger_small: "\<bar>n\<bar> < 10 ^ 21 \<Longrightarrow> isFiniteInteger n"
  using Number_overflow_large by (simp add: isFiniteInteger_def)

lemma toIntegerNumber_finite: "isFiniteInteger v \<Longrightarrow> toIntegerNumber v = v"
  by (auto simp: isFiniteInteger_def toIntegerNumber_def abs_less_iff)

lemma num_of_int_finite: "isFiniteInteger n \<Longrightarrow> num_of_int n = mkFin n 0"
  by (auto simp: isFiniteInteger_def num_of_int_def abs_less_iff)

lemma parseInt_unsigned:
  assumes "s \<noteq> []" "is_digit (hd s)"
  shows "parseInt s = Some (toIntegerNumber (int_of_digits (takeWhile is_digit s)))"
    "parseInt (CHR ''-'' # s) = Some (toIntegerNumber (- int_of_digits (takeWhile is_digit s)))"
proof -
  from assms obtain c cs where s: "s = c # cs" "is_digit c"
    by (cases s) auto
  then have c: "\<not> is_ws c" "c \<noteq> CHR ''-''" "c \<noteq> CHR ''+''"
    by (simp_all add: is_digit_not_special)
  then show "parseInt s = Some (toIntegerNumber (int_of_digits (takeWhile is_digit s)))"
    using s by (simp add: parseInt_def)
  show "parseInt (CHR ''-'' # s)
      = Some (toIntegerNumber (- int_of_digits (takeWhile is_digit s)))"
    using s by (simp add: parseInt_def is_ws_def)
qed

lemma parseInt_string_of_int_defined:
  assumes "isFiniteInteger n"
  shows "\<exists>k. parseInt (string_of_int n) = Some k"
proof -
  have nf: "string_of_int n = toString (mkFin n 0)"
    by (simp add: string_of_int_def num_of_int_finite [OF assms])
  obtain m e where f: "mkFin n 0 = Fin m e" "n \<noteq> 0 \<longrightarrow> m mod 10 \<noteq> 0" "n = 0 \<longrightarrow> m = 0"
    using mkFin_decompose [of n 0] by (cases "n = 0") (auto simp: mkFin_zero)
  consider (zero) "m = 0" | (pos) "0 < m" | (neg) "m < 0"
    by linarith
  then show ?thesis
  proof cases
    case zero
    have "parseInt ''0'' = Some 0"
      by code_simp
    with zero f show ?thesis
      unfolding nf by simp
  next
    case pos
    with f have nz: "m mod 10 \<noteq> 0" by auto
    from toString_pos_roundtrip [OF pos nz, of 1 e] have
      "toString_pos m e \<noteq> []" "is_digit (hd (toString_pos m e))"
      by simp_all
    from parseInt_unsigned(1) [OF this] pos f show ?thesis
      by (simp add: nf)
  next
    case neg
    with f have "m mod 10 \<noteq> 0" by auto
    then have nz: "(- m) mod 10 \<noteq> 0"
      by (simp add: mod_eq_0_iff_dvd)
    from neg have pos: "0 < - m" by simp
    from toString_pos_roundtrip [OF pos nz, of 1 e] have
      "toString_pos (- m) e \<noteq> []" "is_digit (hd (toString_pos (- m) e))"
      by simp_all
    from parseInt_unsigned(2) [OF this] neg f show ?thesis
      by (simp add: nf)
  qed
qed

lemma toString_pos_integer:
  assumes "0 < m" "m * 10 ^ j < 10 ^ 21"
  shows "toString_pos m (int j) = digits_of_int m @ replicate j CHR ''0''"
proof -
  let ?k = "length (digits_of_int m)"
  have "(10::int) ^ (?k - 1) \<le> m"
    using digits_of_int_lower [OF assms(1)] .
  then have "(10::int) ^ (?k - 1) * 10 ^ j \<le> m * 10 ^ j"
    by (rule mult_right_mono) simp
  then have "(10::int) ^ (?k - 1 + j) \<le> m * 10 ^ j"
    by (simp only: power_add)
  from this assms(2) have "(10::int) ^ (?k - 1 + j) < 10 ^ 21"
    by (rule le_less_trans)
  with power_less_imp_less_exp [of "10::int" "?k - 1 + j" 21] have "?k - 1 + j < 21"
    by fastforce
  moreover have "?k \<noteq> 0"
    by (simp add: digits_of_int_nonempty)
  ultimately have "int ?k + int j \<le> 21"
    by linarith
  then show ?thesis
    by (simp add: toString_pos_def Let_def)
qed

lemma parseInt_digits:
  assumes "list_all is_digit s" "s \<noteq> []"
  shows "parseInt s = Some (toIntegerNumber (int_of_digits s))"
    "parseInt (CHR ''-'' # s) = Some (toIntegerNumber (- int_of_digits s))"
proof -
  from assms have "is_digit (hd s)"
    by (cases s) simp_all
  from parseInt_unsigned [OF assms(2) this] takeWhile_all_digits [OF assms(1)]
  show "parseInt s = Some (toIntegerNumber (int_of_digits s))"
    "parseInt (CHR ''-'' # s) = Some (toIntegerNumber (- int_of_digits s))"
    by simp_all
qed

lemma parseInt_string_of_int:
  assumes "\<bar>n\<bar> < 10 ^ 21"
  shows "parseInt (string_of_int n) = Some n"
proof -
  note fin = isFiniteInteger_small [OF assms]
  have nf: "string_of_int n = toString (mkFin n 0)"
    by (simp add: string_of_int_def num_of_int_finite [OF fin])
  obtain m j where f0: "mkFin n 0 = Fin m (if n = 0 then 0 else 0 + int j)"
    and f2: "n = m * 10 ^ j" and f3: "n \<noteq> 0 \<longrightarrow> m mod 10 \<noteq> 0"
    using mkFin_decompose [of n 0] by blast
  from f0 have f1: "mkFin n 0 = Fin m (if n = 0 then 0 else int j)"
    by simp
  note f = f1 f2 f3
  consider (zero) "n = 0" | (pos) "0 < n" | (neg) "n < 0"
    by linarith
  then show ?thesis
  proof cases
    case zero
    have "parseInt ''0'' = Some 0"
      by code_simp
    with zero show ?thesis
      unfolding nf by (simp add: mkFin_zero)
  next
    case pos
    with f(2) have m: "0 < m"
      by (simp add: zero_less_mult_iff)
    from assms pos f(2) have "m * 10 ^ j < 10 ^ 21"
      by simp
    note S = toString_pos_integer [OF m this]
    have d: "list_all is_digit (digits_of_int m @ replicate j CHR ''0'')"
      "digits_of_int m @ replicate j CHR ''0'' \<noteq> []"
      using m by (simp_all add: digits_of_int_digits digits_zeros digits_of_int_nonempty)
    have "int_of_digits (digits_of_int m @ replicate j CHR ''0'') = n"
      using m by (simp add: int_of_digits_append int_of_digits_zeros
          int_of_digits_digits_of_int f(2))
    with parseInt_digits(1) [OF d] S f(1) pos m show ?thesis
      by (simp add: nf toIntegerNumber_finite [OF fin])
  next
    case neg
    with f(2) have m: "m < 0"
      by (simp add: mult_less_0_iff)
    then have pm: "0 < - m" by simp
    from assms neg f(2) have "(- m) * 10 ^ j < 10 ^ 21"
      by simp
    note S = toString_pos_integer [OF pm this]
    have d: "list_all is_digit (digits_of_int (- m) @ replicate j CHR ''0'')"
      "digits_of_int (- m) @ replicate j CHR ''0'' \<noteq> []"
      using pm by (simp_all add: digits_of_int_digits digits_zeros digits_of_int_nonempty)
    have "int_of_digits (digits_of_int (- m) @ replicate j CHR ''0'') = - n"
      using pm by (simp add: int_of_digits_append int_of_digits_zeros
          int_of_digits_digits_of_int f(2))
    with parseInt_digits(2) [OF d] S f(1) neg m show ?thesis
      by (simp add: nf toIntegerNumber_finite [OF fin])
  qed
qed

text \<open>What the parser returns for a string is a number in normal form.\<close>

lemma normal_parseFloat: "normal (parseFloat s)"
proof -
  have "normal (read_decimal sg r)" for sg r
    by (simp add: read_decimal_def Let_def normal_mkFin) (simp add: normal_def)
  then show ?thesis
    by (simp add: parseFloat_def split_beta) (simp add: normal_def)
qed

lemma normal_parseCurrency: "normal (parseCurrency (VStr s))"
  using normal_parseFloat [of "normalizeSeparators (trim s)"]
  by (simp add: Let_def) (simp add: normal_def)

section \<open>Days, weeks and the clock\<close>

lemma DayFromYear_after_1970:
  assumes "1971 \<le> y"
  shows "365 \<le> DayFromYear y"
proof -
  define a where "a = (y - 1969) div 4"
  define z where "z = (y - 1901) div 100"
  define c where "c = (y - 1601) div 400"
  have a: "0 \<le> a"
    using assms by (simp add: a_def pos_imp_zdiv_nonneg_iff)
  have c: "0 \<le> c"
    using assms by (simp add: c_def pos_imp_zdiv_nonneg_iff)
  have "z * 100 + (y - 1901) mod 100 = y - 1901"
    unfolding z_def by (rule div_mult_mod_eq)
  moreover have "0 \<le> (y - 1901) mod 100"
    by simp
  ultimately have z: "100 * z \<le> y - 1901"
    by linarith
  have "DayFromYear y = 365 * (y - 1970) + a - z + c"
    by (simp add: DayFromYear_def a_def z_def c_def)
  moreover have "z \<le> 365 * (y - 1971)"
  proof (cases "y = 1971")
    case True
    then show ?thesis by (simp add: z_def)
  next
    case False
    with assms have "1972 \<le> y" by simp
    with z show ?thesis by simp
  qed
  ultimately show ?thesis
    using a c by simp
qed

lemma month_cases:
  "0 \<le> (mn::int) \<Longrightarrow> mn \<le> 11 \<Longrightarrow>
   mn = 0 \<or> mn = 1 \<or> mn = 2 \<or> mn = 3 \<or> mn = 4 \<or> mn = 5 \<or> mn = 6 \<or> mn = 7 \<or> mn = 8 \<or> mn = 9 \<or>
   mn = 10 \<or> mn = 11"
  by presburger

lemma DaysBeforeMonth_nonneg: "0 \<le> mn \<Longrightarrow> mn \<le> 11 \<Longrightarrow> 0 \<le> DaysBeforeMonth y mn"
  using month_cases [of mn] by (auto simp: DaysBeforeMonth_def)

lemma msPerDay_pos: "0 < msPerDay"
  by (simp add: msPerDay_def)

lemma MakeDay_shift: "MakeDay y m (d - w) = MakeDay y m d - w"
  by (simp add: MakeDay_def Let_def)

lemma getUTCDay_range: "0 \<le> getUTCDay t \<and> getUTCDay t < 7"
  by (simp add: getUTCDay_def)

lemma getUTCDay_days: "getUTCDay (d * msPerDay) = (d + 4) mod 7"
  by (simp add: getUTCDay_def msPerDay_def)

lemma startOfWeekUTC_eq: "startOfWeekUTC c = nowUTC c - getUTCDay (nowUTC c) * msPerDay"
  by (simp add: startOfWeekUTC_def nowUTC_def Date_UTC_def MakeDay_shift left_diff_distrib)

lemma startOfWeekUTC_sunday: "getUTCDay (startOfWeekUTC c) = 0"
proof -
  define d where "d = MakeDay (MakeFullYear (utcFullYear c)) (utcMonth c) (utcDate c)"
  have n: "nowUTC c = d * msPerDay"
    by (simp add: nowUTC_def Date_UTC_def d_def)
  have "startOfWeekUTC c = (d - (d + 4) mod 7) * msPerDay"
    unfolding startOfWeekUTC_def MakeDay_shift n getUTCDay_days d_def ..
  then have "getUTCDay (startOfWeekUTC c) = (d - (d + 4) mod 7 + 4) mod 7"
    by (simp only: getUTCDay_days)
  also have "\<dots> = 0"
    by presburger
  finally show ?thesis .
qed

lemma startOfWeekUTC_bounds:
  "startOfWeekUTC c \<le> nowUTC c \<and> nowUTC c < startOfWeekUTC c + 7 * msPerDay"
  using getUTCDay_range [of "nowUTC c"]
  by (simp add: startOfWeekUTC_eq msPerDay_def)

lemma set_filteredOperations_Week:
  "(op \<in> set (filteredOperations Week c ops))
     = (op \<in> set ops \<and> startOfWeekUTC c \<le> getDateAsUTC (date op))"
  by (simp add: filteredOperations_def)

lemma nowUTC_after_1970:
  assumes "valid_clock c" "1970 < utcFullYear c"
  shows "365 * msPerDay \<le> nowUTC c" "365 * msPerDay \<le> startOfMonthUTC c"
proof -
  from assms have m: "0 \<le> utcMonth c" "utcMonth c \<le> 11" and d: "1 \<le> utcDate c"
    and y: "1971 \<le> utcFullYear c"
    by (simp_all add: valid_clock_def)
  from y have fy: "MakeFullYear (utcFullYear c) = utcFullYear c"
    by (simp add: MakeFullYear_def)
  from m have md: "utcMonth c div 12 = 0" "utcMonth c mod 12 = utcMonth c"
    by simp_all
  have base: "365 \<le> DayFromYear (utcFullYear c) + DaysBeforeMonth (utcFullYear c) (utcMonth c)"
    using DayFromYear_after_1970 [OF y] DaysBeforeMonth_nonneg [OF m, of "utcFullYear c"] by simp
  have "365 \<le> MakeDay (utcFullYear c) (utcMonth c) (utcDate c)"
    using base d by (simp add: MakeDay_def md Let_def)
  then show "365 * msPerDay \<le> nowUTC c"
    using msPerDay_pos by (simp add: nowUTC_def Date_UTC_def fy)
  have "365 \<le> MakeDay (utcFullYear c) (utcMonth c) 1"
    using base by (simp add: MakeDay_def md Let_def)
  then show "365 * msPerDay \<le> startOfMonthUTC c"
    using msPerDay_pos by (simp add: startOfMonthUTC_def Date_UTC_def fy)
qed


section \<open>The order of the calendar\<close>

lemma div_next:
  fixes a k :: int
  assumes "0 < k"
  shows "(a + 1) div k = a div k + (if (a + 1) mod k = 0 then 1 else 0)"
proof -
  define q r where "q = a div k" and "r = a mod k"
  have a: "a = k * q + r"
    by (simp add: q_def r_def)
  have r: "0 \<le> r" "r < k"
    using assms by (simp_all add: r_def)
  show ?thesis
  proof (cases "r + 1 = k")
    case True
    with a have e: "a + 1 = k * (q + 1) + 0"
      by (simp add: algebra_simps)
    from int_div_pos_eq [OF e _ assms] int_mod_pos_eq [OF e _ assms] show ?thesis
      by (simp add: q_def)
  next
    case False
    with r have r': "0 \<le> r + 1" "r + 1 < k"
      by simp_all
    from a have e: "a + 1 = k * q + (r + 1)"
      by simp
    from int_div_pos_eq [OF e r'] int_mod_pos_eq [OF e r'] r show ?thesis
      by (simp add: q_def)
  qed
qed

lemma mod_shift:
  fixes y :: int
  shows "((y - j * k) mod k = 0) = (y mod k = 0)"
proof -
  have "(y - j * k) mod k = (y + (- j) * k) mod k"
    by simp
  also have "\<dots> = y mod k"
    by (rule mod_mult_self1)
  finally show ?thesis
    by simp
qed

lemma mod_coarser:
  fixes y :: int
  assumes "y mod (j * k) = 0"
  shows "y mod k = 0"
proof -
  from assms have "j * k dvd y"
    by (simp add: mod_eq_0_iff_dvd)
  then have "k dvd y"
    by (rule dvd_mult_right)
  then show ?thesis
    by (simp add: mod_eq_0_iff_dvd)
qed

lemma DayFromYear_next:
  "DayFromYear (y + 1) = DayFromYear y + (if InLeapYear y then 366 else 365)"
proof -
  have 4: "((y - 1968) mod 4 = 0) = (y mod 4 = 0)"
    using mod_shift [of y 492 4] by simp
  have 100: "((y - 1900) mod 100 = 0) = (y mod 100 = 0)"
    using mod_shift [of y 19 100] by simp
  have 400: "((y - 1600) mod 400 = 0) = (y mod 400 = 0)"
    using mod_shift [of y 4 400] by simp
  have d: "y mod 400 = 0 \<Longrightarrow> y mod 100 = 0" "y mod 100 = 0 \<Longrightarrow> y mod 4 = 0"
    using mod_coarser [of y 4 100] mod_coarser [of y 25 4] by simp_all
  have a: "(y + 1 - 1969) div 4 = (y - 1969) div 4 + (if y mod 4 = 0 then 1 else 0)"
    using div_next [of 4 "y - 1969"] 4 by simp
  have b: "(y + 1 - 1901) div 100 = (y - 1901) div 100 + (if y mod 100 = 0 then 1 else 0)"
    using div_next [of 100 "y - 1901"] 100 by simp
  have c: "(y + 1 - 1601) div 400 = (y - 1601) div 400 + (if y mod 400 = 0 then 1 else 0)"
    using div_next [of 400 "y - 1601"] 400 by simp
  show ?thesis
    unfolding DayFromYear_def InLeapYear_def a b c using d by auto
qed


lemma DayFromYear_mono: "y \<le> y' \<Longrightarrow> DayFromYear y \<le> DayFromYear y'"
proof -
  have "DayFromYear y \<le> DayFromYear (y + int k)" for k
  proof (induction k)
    case 0
    then show ?case by simp
  next
    case (Suc k)
    have e: "y + int (Suc k) = y + int k + 1"
      by simp
    have "DayFromYear (y + int k) \<le> DayFromYear (y + int k + 1)"
      by (simp only: DayFromYear_next split: if_splits) simp
    with Suc show ?case
      unfolding e by (rule order_trans)
  qed
  from this [of "nat (y' - y)"] show "y \<le> y' \<Longrightarrow> DayFromYear y \<le> DayFromYear y'"
    by simp
qed

lemma day_of_year_bounds:
  assumes "0 \<le> mn" "mn \<le> 11" "1 \<le> d" "d \<le> DaysInMonth y mn"
  shows "0 \<le> DaysBeforeMonth y mn + d - 1"
    and "DaysBeforeMonth y mn + d - 1 < (if InLeapYear y then 366 else 365)"
  using month_cases [OF assms(1,2)] assms(3,4)
  by (auto simp: DaysBeforeMonth_def DaysInMonth_def)

lemma DaysBeforeMonth_next:
  assumes "0 \<le> mn" "mn \<le> 10"
  shows "DaysBeforeMonth y (mn + 1) = DaysBeforeMonth y mn + DaysInMonth y mn"
proof -
  from assms have "mn \<le> 11" by simp
  from month_cases [OF assms(1) this] assms(2) show ?thesis
    by (auto simp: DaysBeforeMonth_def DaysInMonth_def)
qed

lemma DaysBeforeMonth_mono:
  assumes "0 \<le> mn" "mn \<le> mn'" "mn' \<le> 11"
  shows "DaysBeforeMonth y mn \<le> DaysBeforeMonth y mn'"
proof -
  have "mn + int k \<le> 11 \<Longrightarrow> DaysBeforeMonth y mn \<le> DaysBeforeMonth y (mn + int k)" for k
  proof (induction k)
    case 0
    then show ?case by simp
  next
    case (Suc k)
    have e: "mn + int (Suc k) = mn + int k + 1"
      by simp
    from Suc.prems have "DaysBeforeMonth y (mn + int k + 1)
        = DaysBeforeMonth y (mn + int k) + DaysInMonth y (mn + int k)"
      using assms(1) by (intro DaysBeforeMonth_next) simp_all
    moreover have "0 \<le> DaysInMonth y (mn + int k)"
      by (simp add: DaysInMonth_def)
    moreover from Suc have "DaysBeforeMonth y mn \<le> DaysBeforeMonth y (mn + int k)"
      by simp
    ultimately show ?case
      unfolding e by linarith
  qed
  from this [of "nat (mn' - mn)"] assms show ?thesis
    by simp
qed

lemma MakeDay_calendar:
  assumes "0 \<le> mn" "mn \<le> 11"
  shows "MakeDay y mn d = DayFromYear y + DaysBeforeMonth y mn + d - 1"
  using assms by (simp add: MakeDay_def Let_def)

lemma MakeDay_strict_mono:
  assumes a: "0 \<le> mn" "mn \<le> 11" "1 \<le> d" "d \<le> DaysInMonth y mn"
    and b: "0 \<le> mn'" "mn' \<le> 11" "1 \<le> d'" "d' \<le> DaysInMonth y' mn'"
    and less: "(y, mn, d) < (y', mn', d')"
  shows "MakeDay y mn d < MakeDay y' mn' d'"
proof -
  note A = day_of_year_bounds [OF a]
  note B = day_of_year_bounds [OF b]
  from less have "y < y' \<or> (y = y' \<and> mn < mn') \<or> (y = y' \<and> mn = mn' \<and> d < d')"
    by simp arith
  then consider "y < y'" | "y = y'" "mn < mn'" | "y = y'" "mn = mn'" "d < d'"
    by blast
  then have "DayFromYear y + DaysBeforeMonth y mn + d - 1
      < DayFromYear y' + DaysBeforeMonth y' mn' + d' - 1"
  proof cases
    case 1
    then have "DayFromYear (y + 1) \<le> DayFromYear y'"
      by (intro DayFromYear_mono) simp
    moreover have "DayFromYear y + DaysBeforeMonth y mn + d - 1 < DayFromYear (y + 1)"
      using A(2) by (simp add: DayFromYear_next split: if_splits)
    ultimately show ?thesis
      using B(1) by simp
  next
    case 2
    then have "mn \<le> 10" "mn + 1 \<le> mn'"
      using b(2) by simp_all
    then have "DaysBeforeMonth y mn + DaysInMonth y mn \<le> DaysBeforeMonth y mn'"
      using DaysBeforeMonth_next [OF a(1), of y] DaysBeforeMonth_mono [of "mn + 1" mn' y] a(1) b(2)
      by simp
    with a(4) b(3) 2(1) show ?thesis
      by simp
  next
    case 3
    then show ?thesis by simp
  qed
  then show ?thesis
    by (simp add: MakeDay_calendar a b)
qed

lemma dateTime_strict_mono:
  assumes "is_calendar_date a" "is_calendar_date b"
    and "(date_year a, date_month a, date_day a) < (date_year b, date_month b, date_day b)"
  shows "dateTime a < dateTime b"
proof -
  from assms(3) have "(date_year a, date_month a - 1, date_day a)
      < (date_year b, date_month b - 1, date_day b)"
    by simp arith
  with assms(1,2) have "MakeDay (date_year a) (date_month a - 1) (date_day a)
      < MakeDay (date_year b) (date_month b - 1) (date_day b)"
    by (intro MakeDay_strict_mono) (simp_all add: is_calendar_date_def)
  then show ?thesis
    using msPerDay_pos by (simp add: dateTime_def)
qed

lemma dateTime_calendar_order:
  assumes "is_calendar_date a" "is_calendar_date b"
  shows "(dateTime a < dateTime b)
           = ((date_year a, date_month a, date_day a) < (date_year b, date_month b, date_day b))"
    and "(dateTime a = dateTime b)
           = ((date_year a, date_month a, date_day a) = (date_year b, date_month b, date_day b))"
proof -
  define ka where "ka = (date_year a, date_month a, date_day a)"
  define kb where "kb = (date_year b, date_month b, date_day b)"
  have e: "ka = kb \<Longrightarrow> dateTime a = dateTime b"
    by (simp add: dateTime_def ka_def kb_def)
  have l: "ka < kb \<Longrightarrow> dateTime a < dateTime b" "kb < ka \<Longrightarrow> dateTime b < dateTime a"
    unfolding ka_def kb_def
    using dateTime_strict_mono [OF assms] dateTime_strict_mono [OF assms(2,1)] by iprover+
  consider "ka < kb" | "ka = kb" | "kb < ka"
    by (rule linorder_cases)
  then have "(dateTime a < dateTime b) = (ka < kb) \<and> (dateTime a = dateTime b) = (ka = kb)"
  proof cases
    case 1
    with l(1) have "dateTime a < dateTime b" by iprover
    with 1 show ?thesis by simp
  next
    case 2
    with e have "dateTime a = dateTime b" by iprover
    with 2 show ?thesis by simp
  next
    case 3
    with l(2) have "dateTime b < dateTime a" by iprover
    with 3 show ?thesis by (simp add: less_imp_neq not_less_iff_gr_or_eq)
  qed
  then show "(dateTime a < dateTime b)
           = ((date_year a, date_month a, date_day a) < (date_year b, date_month b, date_day b))"
    and "(dateTime a = dateTime b)
           = ((date_year a, date_month a, date_day a) = (date_year b, date_month b, date_day b))"
    unfolding ka_def kb_def by iprover+
qed

section \<open>What a submitted form changes\<close>

lemma submittedOp_status:
  "(status (submittedOp f st l en ex pv i n) = Gain) = jgt0 (result (submittedOp f st l en ex pv i n))"
  "(status (submittedOp f st l en ex pv i n) = Loss) = jlt0 (result (submittedOp f st l en ex pv i n))"
  "(status (submittedOp f st l en ex pv i n) = BreakEven) =
     (jeq0 (result (submittedOp f st l en ex pv i n)) \<or> isNaN (result (submittedOp f st l en ex pv i n)))"
proof -
  define r where "r = result (submittedOp f st l en ex pv i n)"
  have s: "status (submittedOp f st l en ex pv i n)
        = (if jgt0 r then Gain else if jlt0 r then Loss else BreakEven)"
    by (simp add: submittedOp_def r_def Let_def)
  show "(status (submittedOp f st l en ex pv i n) = Gain) = jgt0 (result (submittedOp f st l en ex pv i n))"
    unfolding s r_def [symmetric] by (cases r) auto
  show "(status (submittedOp f st l en ex pv i n) = Loss) = jlt0 (result (submittedOp f st l en ex pv i n))"
    unfolding s r_def [symmetric] by (cases r) auto
  show "(status (submittedOp f st l en ex pv i n) = BreakEven) =
     (jeq0 (result (submittedOp f st l en ex pv i n)) \<or> isNaN (result (submittedOp f st l en ex pv i n)))"
    unfolding s r_def [symmetric] by (cases r) (auto simp: isNaN_def)
qed

lemma submittedOp_lots: "lots (submittedOp f st l en ex pv i n) = l"
  by (simp add: submittedOp_def Let_def)

lemma handleSubmit_cases:
  assumes "handleSubmit now formState st = Inr st'"
  shows "st' = st \<or>
         (\<exists>l en ex pv i n. 0 < l \<and>
            (operations st' = operations st @ [submittedOp formState st l en ex pv i n] \<or>
             operations st' = map (\<lambda>op. if op_id op = i then submittedOp formState st l en ex pv i n else op)
                 (operations st)))"
proof (cases "parseInt (form_lots formState)")
  case None
  with assms show ?thesis
    by (simp add: handleSubmit_def)
next
  case (Some l)
  show ?thesis
  proof (cases "isNaN (parseCurrency (VStr (form_entryPrice formState))) \<or>
      isNaN (parseCurrency (VStr (form_exitPrice formState))) \<or>
      isNaN (parseCurrency (VStr (form_pointValue formState))) \<or> l \<le> 0")
    case True
    with assms Some show ?thesis
      by (simp add: handleSubmit_def)
  next
    case False
    then have l: "0 < l" by simp
    show ?thesis
    proof (cases "editingId st")
      case None
      with assms Some False have
        "operations st' = operations st @
           [submittedOp formState st l (parseCurrency (VStr (form_entryPrice formState)))
              (parseCurrency (VStr (form_exitPrice formState)))
              (parseCurrency (VStr (form_pointValue formState))) now
              (plusOne (if operations st \<noteq> [] then Math_max (map opNumber (operations st)) else 0))]"
        by (auto simp: handleSubmit_def Let_def resetForm_def)
      with l show ?thesis by blast
    next
      case (Some eid)
      note eid = this
      show ?thesis
      proof (cases "find (\<lambda>op. op_id op = eid) (operations st)")
        case None
        with assms \<open>parseInt (form_lots formState) = Some l\<close> False eid show ?thesis
          by (simp add: handleSubmit_def Let_def)
      next
        case (Some old)
        with assms \<open>parseInt (form_lots formState) = Some l\<close> False eid have
          "operations st' = map (\<lambda>op. if op_id op = eid
              then submittedOp formState st l (parseCurrency (VStr (form_entryPrice formState)))
                (parseCurrency (VStr (form_exitPrice formState)))
                (parseCurrency (VStr (form_pointValue formState))) eid (opNumber old)
              else op) (operations st)"
          by (auto simp: handleSubmit_def Let_def resetForm_def)
        with l show ?thesis by blast
      qed
    qed
  qed
qed

lemma handleSubmit_new_operation:
  assumes "handleSubmit now formState st = Inr st'" "op \<in> set (operations st')"
  shows "op \<in> set (operations st) \<or>
         (\<exists>l en ex pv i n. 0 < l \<and> op = submittedOp formState st l en ex pv i n)"
proof -
  from handleSubmit_cases [OF assms(1)] consider
      "st' = st"
    | l en ex pv i n where "0 < l"
        "operations st' = operations st @ [submittedOp formState st l en ex pv i n]"
    | l en ex pv i n where "0 < l"
        "operations st' = map (\<lambda>op. if op_id op = i then submittedOp formState st l en ex pv i n else op)
           (operations st)"
    by blast
  then show ?thesis
  proof cases
    case 1
    with assms(2) show ?thesis by simp
  next
    case 2
    with assms(2) have "op \<in> set (operations st) \<or> op = submittedOp formState st l en ex pv i n"
      by auto
    with 2(1) show ?thesis by blast
  next
    case 3
    with assms(2) obtain x where "x \<in> set (operations st)"
      "op = (if op_id x = i then submittedOp formState st l en ex pv i n else x)"
      by auto
    then have "op \<in> set (operations st) \<or> op = submittedOp formState st l en ex pv i n"
      by (cases "op_id x = i") simp_all
    with 3(1) show ?thesis by blast
  qed
qed


lemma parseCurrency_string_number: "\<not> isNaN (parseCurrency (VStr s))"
  by (simp add: Let_def isNaN_def)

lemma handleSubmit_invalid:
  "parseInt (form_lots formState) = None \<Longrightarrow> handleSubmit now formState st = Inr st"
  "parseInt (form_lots formState) = Some l \<Longrightarrow> l \<le> 0 \<Longrightarrow> handleSubmit now formState st = Inr st"
  by (simp_all add: handleSubmit_def)

lemma handleSubmit_create:
  assumes "parseInt (form_lots formState) = Some l" "0 < l" "editingId st = None"
  shows "handleSubmit now formState st =
     Inr (resetForm (st\<lparr>triggers := submittedTriggers formState st,
        regions := submittedRegions formState st,
        operations := operations st @
          [submittedOp formState st l (parseCurrency (VStr (form_entryPrice formState)))
             (parseCurrency (VStr (form_exitPrice formState)))
             (parseCurrency (VStr (form_pointValue formState))) now
             (plusOne (if operations st \<noteq> [] then Math_max (map opNumber (operations st)) else 0))]\<rparr>))"
  using assms parseCurrency_string_number
  by (simp add: handleSubmit_def Let_def del: parseCurrency.simps)

lemma handleSubmit_update:
  assumes "parseInt (form_lots formState) = Some l" "0 < l" "editingId st = Some eid"
  shows "handleSubmit now formState st =
     (case find (\<lambda>op. op_id op = eid) (operations st) of
        None \<Rightarrow> Inl TypeError
      | Some old \<Rightarrow>
          Inr (resetForm (st\<lparr>triggers := submittedTriggers formState st,
            regions := submittedRegions formState st,
            operations := map (\<lambda>op. if op_id op = eid
                then submittedOp formState st l (parseCurrency (VStr (form_entryPrice formState)))
                  (parseCurrency (VStr (form_exitPrice formState)))
                  (parseCurrency (VStr (form_pointValue formState))) eid (opNumber old)
                else op) (operations st)\<rparr>)))"
  using assms parseCurrency_string_number
  by (simp add: handleSubmit_def Let_def del: parseCurrency.simps)

lemma submittedOp_fields:
  "op_id (submittedOp f st l en ex pv i n) = i"
  "opNumber (submittedOp f st l en ex pv i n) = n"
  "asset (submittedOp f st l en ex pv i n) = form_asset f"
  "side (submittedOp f st l en ex pv i n) = form_side f"
  "date (submittedOp f st l en ex pv i n) = form_date f"
  "entryPrice (submittedOp f st l en ex pv i n) = en"
  "exitPrice (submittedOp f st l en ex pv i n) = ex"
  "points (submittedOp f st l en ex pv i n)
     = (if form_side f = Buy then jsub ex en else jsub en ex)"
  "result (submittedOp f st l en ex pv i n)
     = jmul (jmul (points (submittedOp f st l en ex pv i n)) (num_of_int l)) pv"
  by (simp_all add: submittedOp_def Let_def)

lemma operations_resetForm: "operations (resetForm st) = operations st"
  by (simp add: resetForm_def)

lemma handleSubmit_operations:
  assumes "handleSubmit now formState st = Inr st'"
  shows "case parseInt (form_lots formState) of
           None \<Rightarrow> st' = st
         | Some l \<Rightarrow>
             if l \<le> 0 then st' = st
             else (\<exists>i n. operations st' =
               (let new = submittedOp formState st l
                      (parseCurrency (VStr (form_entryPrice formState)))
                      (parseCurrency (VStr (form_exitPrice formState)))
                      (parseCurrency (VStr (form_pointValue formState))) i n
                in case editingId st of
                     None \<Rightarrow> operations st @ [new]
                   | Some eid \<Rightarrow> map (\<lambda>op. if op_id op = eid then new else op) (operations st))
               \<and> i = (case editingId st of None \<Rightarrow> now | Some eid \<Rightarrow> eid)
               \<and> (\<forall>eid. editingId st = Some eid \<longrightarrow> (\<exists>old\<in>set (operations st). op_id old = eid)))"
proof (cases "parseInt (form_lots formState)")
  case None
  with assms handleSubmit_invalid(1) [OF None, of now st] show ?thesis
    by simp
next
  case (Some l)
  show ?thesis
  proof (cases "l \<le> 0")
    case True
    with assms handleSubmit_invalid(2) [OF Some True, of now st] Some show ?thesis
      by simp
  next
    case False
    then have l: "0 < l" by simp
    show ?thesis
    proof (cases "editingId st")
      case None
      from assms handleSubmit_create [OF Some l None, of now] None Some False show ?thesis
        by (auto simp: operations_resetForm Let_def)
    next
      case (Some eid)
      note eid = this
      show ?thesis
      proof (cases "find (\<lambda>op. op_id op = eid) (operations st)")
        case None
        with assms handleSubmit_update [OF \<open>parseInt (form_lots formState) = Some l\<close> l eid, of now]
        show ?thesis by simp
      next
        case (Some old)
        then have "old \<in> set (operations st)" "op_id old = eid"
          by (auto simp: find_Some_iff)
        with Some assms handleSubmit_update [OF \<open>parseInt (form_lots formState) = Some l\<close> l eid, of now]
          eid \<open>parseInt (form_lots formState) = Some l\<close> False
        show ?thesis
          by (auto simp: operations_resetForm Let_def)
      qed
    qed
  qed
qed

section \<open>Column names\<close>

lemma transformHeader_examples:
  "transformHeader ''Op Number'' = ''opnumber''"
  "transformHeader ''ENTRY_PRICE'' = ''entryprice''"
  "transformHeader (''REGI'' @ [CHR 0xC3, CHR 0x83] @ ''O'') = ''regi'' @ [CHR 0xC3, CHR 0xA3] @ ''o''"
  "map_of headerMapping (transformHeader (''Pre'' @ [CHR 0xC3, CHR 0x87] @ ''o de Entrada''))
     = Some ''entryPrice''"
  by code_simp+

section \<open>Rows that fail the import\<close>

lemma importRow_invalid:
  "invalidNumber row \<Longrightarrow> importRow n t index row = Inl (InvalidNumberInRow (index + 2))"
  by (auto simp: invalidNumber_def importRow_def Let_def split: option.splits)

lemma importRow_valid:
  "\<not> invalidNumber row \<Longrightarrow> \<exists>op. importRow n t index row = Inr op"
  by (auto simp: invalidNumber_def importRow_def Let_def split: option.splits)

lemma importRows_first_invalid:
  assumes "i < length rows" "invalidNumber (rows ! i)" "\<forall>j<i. \<not> invalidNumber (rows ! j)"
  shows "importRows now today k rows = Inl (InvalidNumberInRow (k + i + 2))"
  using assms
proof (induction rows arbitrary: i k)
  case Nil
  then show ?case by simp
next
  case (Cons row rows)
  show ?case
  proof (cases i)
    case 0
    with Cons.prems show ?thesis
      by (simp add: importRow_invalid)
  next
    case (Suc i')
    with Cons.prems have "\<not> invalidNumber row"
      by auto
    then obtain op where op: "importRow (now k) (today k) k row = Inr op"
      using importRow_valid by blast
    from Cons.prems Suc have "i' < length rows" "invalidNumber (rows ! i')"
      "\<forall>j<i'. \<not> invalidNumber (rows ! j)"
      by auto
    from Cons.IH [OF this] have "importRows now today (k + 1) rows
        = Inl (InvalidNumberInRow (k + 1 + i' + 2))" .
    with op Suc show ?thesis
      by simp
  qed
qed

lemma first_invalid_exists:
  "\<exists>r\<in>set rows. P r \<Longrightarrow> \<exists>i<length rows. P (rows ! i) \<and> (\<forall>j<i. \<not> P (rows ! j))"
proof (induction rows)
  case Nil
  then show ?case by simp
next
  case (Cons r rows)
  show ?case
  proof (cases "P r")
    case True
    then have "0 < length (r # rows) \<and> P ((r # rows) ! 0) \<and> (\<forall>j<0. \<not> P ((r # rows) ! j))"
      by simp
    then show ?thesis by blast
  next
    case False
    with Cons.prems have "\<exists>r\<in>set rows. P r"
      by simp
    from Cons.IH [OF this] obtain i where i: "i < length rows" "P (rows ! i)"
      "\<forall>j<i. \<not> P (rows ! j)"
      by blast
    have "\<forall>j<Suc i. \<not> P ((r # rows) ! j)"
    proof (intro allI impI)
      fix j assume "j < Suc i"
      with False i(3) show "\<not> P ((r # rows) ! j)"
        by (cases j) simp_all
    qed
    with i have "Suc i < length (r # rows) \<and> P ((r # rows) ! Suc i) \<and>
        (\<forall>j<Suc i. \<not> P ((r # rows) ! j))"
      by simp
    then show ?thesis by blast
  qed
qed

section \<open>Importing an exported file\<close>

lemma transformed_unparse_fields:
  "map transformHeader unparse_fields =
     [''id'', ''asset'', ''opnumber'', ''side'', ''date'', ''lots'', ''entryprice'',
      ''exitprice'', ''points'', ''result'', ''status'', ''region'', ''structure'',
      ''trigger'']"
  by code_simp

lemma headerMapping_export:
  "map_of headerMapping ''id'' = None"
  "map_of headerMapping ''asset'' = Some ''asset''"
  "map_of headerMapping ''opnumber'' = Some ''opNumber''"
  "map_of headerMapping ''side'' = Some ''side''"
  "map_of headerMapping ''date'' = Some ''date''"
  "map_of headerMapping ''lots'' = Some ''lots''"
  "map_of headerMapping ''entryprice'' = Some ''entryPrice''"
  "map_of headerMapping ''exitprice'' = Some ''exitPrice''"
  "map_of headerMapping ''points'' = Some ''points''"
  "map_of headerMapping ''result'' = Some ''result''"
  "map_of headerMapping ''status'' = Some ''status''"
  "map_of headerMapping ''region'' = Some ''region''"
  "map_of headerMapping ''structure'' = Some ''structure''"
  "map_of headerMapping ''trigger'' = Some ''trigger''"
  by code_simp+

lemma normalizedRow_export:
  "normalizedRow (row_object unparse_fields [c0, c1, c2, c3, c4, c5, c6, c7, c8, c9, c10, c11, c12, c13])
     = [(''trigger'', c13), (''structure'', c12), (''region'', c11), (''status'', c10),
        (''result'', c9), (''points'', c8), (''exitPrice'', c7), (''entryPrice'', c6),
        (''lots'', c5), (''date'', c4), (''side'', c3), (''opNumber'', c2), (''asset'', c1)]"
  by (simp add: row_object_def transformed_unparse_fields normalizedRow_def headerMapping_export)

lemma string_of_int_nonempty: "string_of_int n \<noteq> []"
proof (cases "isFiniteInteger n")
  case True
  from parseInt_string_of_int_defined [OF this] show ?thesis
    by (auto simp: parseInt_def)
next
  case False
  then show ?thesis
    by (auto simp: isFiniteInteger_def string_of_int_def num_of_int_def)
qed

lemma or_default_Some: "s \<noteq> [] \<Longrightarrow> or_default (Some s) d = s"
  by (simp add: or_default_def)

lemma or_default_empty: "or_default (Some s) [] = s"
  by (simp add: or_default_def)

lemma importRow_unparse_row:
  assumes "heldRecord op" "readableNumbers op"
  shows "\<exists>op'. importRow now today index (row_object unparse_fields (unparse_row op)) = Inr op'
           \<and> sameTrade op op'"
proof -
  let ?nr = "map_of (normalizedRow (row_object unparse_fields (unparse_row op)))"
  have nr: "?nr ''opNumber'' = Some (string_of_int (opNumber op))"
    "?nr ''lots'' = Some (string_of_int (lots op))"
    "?nr ''entryPrice'' = Some (toString (entryPrice op))"
    "?nr ''exitPrice'' = Some (toString (exitPrice op))"
    "?nr ''asset'' = Some (asset op)"
    "?nr ''side'' = Some (string_of_Side (side op))"
    "?nr ''date'' = Some (date op)"
    "?nr ''region'' = Some (region op)"
    "?nr ''structure'' = Some (structure op)"
    "?nr ''trigger'' = Some (trigger op)"
    by (simp_all add: unparse_row_def normalizedRow_export)
  from assms(2) obtain k where k: "parseInt (string_of_int (opNumber op)) = Some k"
    using parseInt_string_of_int_defined by (auto simp: readableNumbers_def)
  from assms(2) have l: "parseInt (string_of_int (lots op)) = Some (lots op)"
    by (simp add: readableNumbers_def parseInt_string_of_int)
  from assms(1) have p: "parseCurrency (VStr (toString (entryPrice op))) = entryPrice op"
    "parseCurrency (VStr (toString (exitPrice op))) = exitPrice op"
    by (simp_all add: heldRecord_def parseCurrency_toString del: parseCurrency.simps)
  from assms(1) have d: "date op \<noteq> []"
    by (simp add: heldRecord_def)
  have s: "(if string_of_Side (side op) = ''Sell'' then Sell else Buy) = side op"
    by (cases "side op") (simp_all add: string_of_Side_def)
  define op' where "op' = \<lparr>op_id = now + int index, asset = asset op, opNumber = k,
      side = side op, date = date op, lots = lots op, entryPrice = entryPrice op,
      exitPrice = exitPrice op, points = parseCurrency (jsval_of (?nr ''points'')),
      result = parseCurrency (jsval_of (?nr ''result'')),
      status = (if ?nr ''status'' = Some ''Gain'' then Gain
                else if ?nr ''status'' = Some ''Loss'' then Loss else BreakEven),
      region = region op, structure = structure op, trigger = trigger op\<rparr>"
  have "importRow now today index (row_object unparse_fields (unparse_row op)) = Inr op'"
    unfolding importRow_def Let_def nr
    by (simp add: or_default_Some string_of_int_nonempty or_default_empty k l p d s
        jsval_of_def op'_def del: parseCurrency.simps)
  moreover have "sameTrade op op'"
    by (simp add: sameTrade_def op'_def)
  ultimately show ?thesis
    by blast
qed

lemma importRows_unparse_rows:
  assumes "list_all heldRecord ops" "list_all readableNumbers ops"
  shows "\<exists>ops'. importRows now today index (map (row_object unparse_fields) (map unparse_row ops))
           = Inr ops' \<and> list_all2 sameTrade ops ops'"
  using assms
proof (induction ops arbitrary: index)
  case Nil
  then show ?case by simp
next
  case (Cons op ops)
  then obtain ops' where t: "importRows now today (index + 1)
      (map (row_object unparse_fields) (map unparse_row ops)) = Inr ops'"
    "list_all2 sameTrade ops ops'"
    by auto
  from Cons.prems have "heldRecord op" "readableNumbers op"
    by simp_all
  from importRow_unparse_row [OF this, of "now index" "today index" index]
  obtain op' where h: "importRow (now index) (today index) index
      (row_object unparse_fields (unparse_row op)) = Inr op'" "sameTrade op op'"
    by blast
  from t h have "importRows now today index
      (map (row_object unparse_fields) (map unparse_row (op # ops))) = Inr (op' # ops')
      \<and> list_all2 sameTrade (op # ops) (op' # ops')"
    by simp
  then show ?case by blast
qed


section \<open>The operations of a reachable state\<close>

lemma handleEdit_operations: "operations (handleEdit op st) = operations st"
  by (simp add: handleEdit_def)

lemma parseCurrency_cell:
  "normal (parseCurrency (jsval_of x))" "\<not> isNaN (parseCurrency (jsval_of x))"
proof -
  have u: "parseCurrency VUndefined = Fin 0 0"
    by code_simp
  show "normal (parseCurrency (jsval_of x))"
    using normal_parseCurrency by (cases x) (simp_all add: jsval_of_def u normal_def)
  show "\<not> isNaN (parseCurrency (jsval_of x))"
    using parseCurrency_string_number by (cases x) (simp_all add: jsval_of_def u isNaN_def)
qed

lemma heldRecord_submittedOp:
  assumes "form_date f \<noteq> []"
  shows "heldRecord (submittedOp f st l (parseCurrency (VStr a)) (parseCurrency (VStr b)) pv i n)"
  unfolding heldRecord_def submittedOp_fields
  using assms normal_parseCurrency parseCurrency_string_number by iprover

lemma heldRecord_opNumber: "heldRecord (op\<lparr>opNumber := k\<rparr>) = heldRecord op"
  by (simp add: heldRecord_def)

lemma renumber_held:
  assumes "\<forall>op\<in>set ops. heldRecord op"
  shows "\<forall>op\<in>set (renumber ops). heldRecord op"
proof
  fix op
  assume "op \<in> set (renumber ops)"
  then obtain idx op0 where "(idx, op0) \<in> set (enumerate 0 ops)"
    "op = op0\<lparr>opNumber := int idx + 1\<rparr>"
    by (auto simp: renumber_def)
  moreover from this(1) have "op0 \<in> set ops"
    by (auto simp: enumerate_eq_zip dest: set_zip_rightD)
  ultimately show "heldRecord op"
    using assms by (simp add: heldRecord_opNumber)
qed

lemma or_default_nonempty: "d \<noteq> [] \<Longrightarrow> or_default x d \<noteq> []"
  by (cases x) (simp_all add: or_default_def)

lemma importRow_held:
  assumes "importRow n t i row = Inr op" "t \<noteq> []"
  shows "heldRecord op"
proof -
  let ?nr = "map_of (normalizedRow row)"
  from assms(1) have "date op = or_default (?nr ''date'') t"
    "entryPrice op = parseCurrency (jsval_of (?nr ''entryPrice''))"
    "exitPrice op = parseCurrency (jsval_of (?nr ''exitPrice''))"
    by (auto simp: importRow_def Let_def simp del: parseCurrency.simps split: option.splits)
  then show ?thesis
    unfolding heldRecord_def
    using or_default_nonempty [OF assms(2)] parseCurrency_cell by simp
qed

lemma importRows_held:
  assumes "importRows now today k rows = Inr ops" "\<forall>index. today index \<noteq> []"
  shows "\<forall>op\<in>set ops. heldRecord op"
  using assms(1)
proof (induction rows arbitrary: k ops)
  case Nil
  then show ?case by simp
next
  case (Cons row rows)
  from Cons.prems obtain op ops' where r: "importRow (now k) (today k) k row = Inr op"
    "importRows now today (k + 1) rows = Inr ops'" "ops = op # ops'"
    by (auto split: sum.splits)
  from importRow_held [OF r(1)] assms(2) have "heldRecord op"
    by simp
  with Cons.IH [OF r(2)] r(3) show ?case
    by simp
qed

lemma handleSubmit_held:
  assumes "handleSubmit now formState st = Inr st'" "requiredFilled formState"
    "\<forall>op\<in>set (operations st). heldRecord op"
  shows "\<forall>op\<in>set (operations st'). heldRecord op"
proof (cases "parseInt (form_lots formState)")
  case None
  with handleSubmit_operations [OF assms(1)] assms(3) show ?thesis
    by simp
next
  case (Some l)
  show ?thesis
  proof (cases "l \<le> 0")
    case True
    with handleSubmit_operations [OF assms(1)] Some assms(3) show ?thesis
      by simp
  next
    case False
    from assms(2) have d: "form_date formState \<noteq> []"
      by (simp add: requiredFilled_def)
    from False handleSubmit_operations [OF assms(1)] Some obtain i n where
      ops: "operations st' =
         (let new = submittedOp formState st l
                (parseCurrency (VStr (form_entryPrice formState)))
                (parseCurrency (VStr (form_exitPrice formState)))
                (parseCurrency (VStr (form_pointValue formState))) i n
          in case editingId st of
               None \<Rightarrow> operations st @ [new]
             | Some eid \<Rightarrow> map (\<lambda>op. if op_id op = eid then new else op) (operations st))"
      by auto
    define new where "new = submittedOp formState st l
        (parseCurrency (VStr (form_entryPrice formState)))
        (parseCurrency (VStr (form_exitPrice formState)))
        (parseCurrency (VStr (form_pointValue formState))) i n"
    have h: "heldRecord new"
      unfolding new_def by (rule heldRecord_submittedOp [OF d])
    from ops have "operations st' = operations st @ [new]
        \<or> (\<exists>eid. operations st' = map (\<lambda>op. if op_id op = eid then new else op) (operations st))"
      by (cases "editingId st") (auto simp: Let_def new_def simp del: parseCurrency.simps)
    with h assms(3) show ?thesis
      by auto
  qed
qed

lemma reachable_held: "reachable st \<Longrightarrow> \<forall>op\<in>set (operations st). heldRecord op"
proof (induction rule: reachable.induct)
  case (initial st)
  then show ?case by simp
next
  case (other_event st st')
  then show ?case by simp
next
  case (submitted st formState now st')
  from handleSubmit_held [OF submitted(3,2) submitted.IH] show ?case .
next
  case (deleted st operationToDelete)
  show ?case
  proof (cases operationToDelete)
    case None
    with deleted.IH show ?thesis
      by (simp add: confirmDelete_def)
  next
    case (Some target)
    from deleted.IH have "\<forall>op\<in>set (js_sort byOpNumber
        (filter (\<lambda>op. op_id op \<noteq> op_id target) (operations st))). heldRecord op"
      by (simp add: set_js_sort)
    from renumber_held [OF this] Some show ?thesis
      by (simp add: confirmDelete_def)
  qed
next
  case (imported st today now csvFile)
  show ?case
  proof (cases "importedOps now today csvFile")
    case (Inl e)
    with imported.IH show ?thesis
      by (simp add: handleFileImport_def)
  next
    case (Inr ops)
    then have "\<forall>op\<in>set ops. heldRecord op"
      using importRows_held [OF _ imported(2)] by (simp add: importedOps_def)
    with imported.IH Inr show ?thesis
      by (auto simp: handleFileImport_def set_js_sort)
  qed
qed
section \<open>The running sum\<close>

lemma lex_date_then_number:
  fixes y m d n :: int
  shows "((y, m, d, n) \<le> (y', m', d', n'))
       = ((y, m, d) < (y', m', d') \<or> (y, m, d) = (y', m', d') \<and> n \<le> n')"
  by auto

lemma byDateThenOpNumber_key:
  assumes "is_calendar_date (date a)" "is_calendar_date (date b)"
  shows "(byDateThenOpNumber other a b \<le> 0)
       = ((date_year (date a), date_month (date a), date_day (date a), opNumber a)
            \<le> (date_year (date b), date_month (date b), date_day (date b), opNumber b))"
proof -
  have "(byDateThenOpNumber other a b \<le> 0)
      = (dateTime (date a) < dateTime (date b)
         \<or> dateTime (date a) = dateTime (date b) \<and> opNumber a \<le> opNumber b)"
    using assms by (auto simp: byDateThenOpNumber_def Date_getTime_def)
  also have "\<dots> = ((date_year (date a), date_month (date a), date_day (date a))
        < (date_year (date b), date_month (date b), date_day (date b))
      \<or> (date_year (date a), date_month (date a), date_day (date a))
        = (date_year (date b), date_month (date b), date_day (date b))
        \<and> opNumber a \<le> opNumber b)"
    by (simp only: dateTime_calendar_order [OF assms])
  also have "\<dots> = ((date_year (date a), date_month (date a), date_day (date a), opNumber a)
            \<le> (date_year (date b), date_month (date b), date_day (date b), opNumber b))"
    by (simp only: lex_date_then_number)
  finally show ?thesis .
qed

lemma running_nth:
  "running c ops
     = map (\<lambda>k. (date (ops ! k), foldl jadd c (map result (take (Suc k) ops)))) [0..<length ops]"
proof (induction ops arbitrary: c)
  case Nil
  then show ?case by simp
next
  case (Cons op ops)
  have "[0..<length (op # ops)] = 0 # map Suc [0..<length ops]"
    by (simp add: upt_conv_Cons map_Suc_upt del: upt_Suc)
  then show ?case
    by (simp add: Cons.IH Let_def comp_def del: upt_Suc)
qed

lemma length_running: "length (running c ops) = length ops"
  by (simp add: running_nth)


section \<open>Status and result\<close>

text \<open>
  Claim C1, as the code has it. A submitted form whose quantity does not parse to a
  positive integer changes nothing. Any other submitted form puts one record into the
  list and leaves the other records as they were: on a create the record is appended
  with the identifier \<open>now\<close>, on an update it takes the place of the record with the
  edited identifier. That record has the asset, side, date, quantity and prices of the
  form, the points and the result computed from them, and, when the result is a number,
  the status that the result determines: Gain iff \<open>result > 0\<close>, Loss iff \<open>result < 0\<close>,
  Break-even iff \<open>result == 0\<close>. (CSV import is not covered: it takes status and result
  from the file independently.)
\<close>

theorem submit_status_from_result:
  assumes "handleSubmit now formState st = Inr st'"
  shows "case parseInt (form_lots formState) of
           None \<Rightarrow> st' = st
         | Some l \<Rightarrow>
             if l \<le> 0 then st' = st
             else (\<exists>op. op \<in> set (operations st')
               \<and> asset op = form_asset formState \<and> side op = form_side formState
               \<and> date op = form_date formState \<and> lots op = l
               \<and> entryPrice op = parseCurrency (VStr (form_entryPrice formState))
               \<and> exitPrice op = parseCurrency (VStr (form_exitPrice formState))
               \<and> points op = (if side op = Buy then jsub (exitPrice op) (entryPrice op)
                              else jsub (entryPrice op) (exitPrice op))
               \<and> result op = jmul (jmul (points op) (num_of_int l))
                                (parseCurrency (VStr (form_pointValue formState)))
               \<and> (\<not> isNaN (result op) \<longrightarrow>
                    (status op = Gain) = jgt0 (result op)
                    \<and> (status op = Loss) = jlt0 (result op)
                    \<and> (status op = BreakEven) = jeq0 (result op))
               \<and> (case editingId st of
                     None \<Rightarrow> op_id op = now \<and> operations st' = operations st @ [op]
                   | Some eid \<Rightarrow> op_id op = eid
                       \<and> operations st' = map (\<lambda>old. if op_id old = eid then op else old)
                                            (operations st)))"
proof (cases "parseInt (form_lots formState)")
  case None
  with handleSubmit_operations [OF assms] show ?thesis
    by simp
next
  case (Some l)
  show ?thesis
  proof (cases "l \<le> 0")
    case True
    with handleSubmit_operations [OF assms] Some show ?thesis
      by simp
  next
    case False
    with handleSubmit_operations [OF assms] Some obtain i n where
      ops: "operations st' =
         (let new = submittedOp formState st l
                (parseCurrency (VStr (form_entryPrice formState)))
                (parseCurrency (VStr (form_exitPrice formState)))
                (parseCurrency (VStr (form_pointValue formState))) i n
          in case editingId st of
               None \<Rightarrow> operations st @ [new]
             | Some eid \<Rightarrow> map (\<lambda>op. if op_id op = eid then new else op) (operations st))"
      and i: "i = (case editingId st of None \<Rightarrow> now | Some eid \<Rightarrow> eid)"
      and old: "\<forall>eid. editingId st = Some eid \<longrightarrow> (\<exists>old\<in>set (operations st). op_id old = eid)"
      by auto
    define new where "new = submittedOp formState st l
        (parseCurrency (VStr (form_entryPrice formState)))
        (parseCurrency (VStr (form_exitPrice formState)))
        (parseCurrency (VStr (form_pointValue formState))) i n"
    have fields: "asset new = form_asset formState" "side new = form_side formState"
      "date new = form_date formState" "lots new = l"
      "entryPrice new = parseCurrency (VStr (form_entryPrice formState))"
      "exitPrice new = parseCurrency (VStr (form_exitPrice formState))"
      "points new = (if side new = Buy then jsub (exitPrice new) (entryPrice new)
                     else jsub (entryPrice new) (exitPrice new))"
      "result new = jmul (jmul (points new) (num_of_int l))
                      (parseCurrency (VStr (form_pointValue formState)))"
      "op_id new = i"
      unfolding new_def by (simp_all only: submittedOp_fields submittedOp_lots)
    have st: "\<not> isNaN (result new) \<longrightarrow>
        (status new = Gain) = jgt0 (result new)
        \<and> (status new = Loss) = jlt0 (result new)
        \<and> (status new = BreakEven) = jeq0 (result new)"
      unfolding new_def by (simp only: submittedOp_status) simp
    have place: "new \<in> set (operations st') \<and>
        (case editingId st of
           None \<Rightarrow> op_id new = now \<and> operations st' = operations st @ [new]
         | Some eid \<Rightarrow> op_id new = eid
             \<and> operations st' = map (\<lambda>old. if op_id old = eid then new else old) (operations st))"
    proof (cases "editingId st")
      case None
      with ops i fields(9) show ?thesis
        by (simp add: Let_def new_def)
    next
      case (Some eid)
      with old obtain x where x: "x \<in> set (operations st)" "op_id x = eid"
        by blast
      from Some ops have m: "operations st'
          = map (\<lambda>old. if op_id old = eid then new else old) (operations st)"
        by (simp add: Let_def new_def)
      from x have "new \<in> set (map (\<lambda>old. if op_id old = eid then new else old) (operations st))"
        by (force simp: image_iff)
      with m Some i fields(9) show ?thesis
        by simp
    qed
    from fields(1-8) st place have "new \<in> set (operations st')
               \<and> asset new = form_asset formState \<and> side new = form_side formState
               \<and> date new = form_date formState \<and> lots new = l
               \<and> entryPrice new = parseCurrency (VStr (form_entryPrice formState))
               \<and> exitPrice new = parseCurrency (VStr (form_exitPrice formState))
               \<and> points new = (if side new = Buy then jsub (exitPrice new) (entryPrice new)
                              else jsub (entryPrice new) (exitPrice new))
               \<and> result new = jmul (jmul (points new) (num_of_int l))
                                (parseCurrency (VStr (form_pointValue formState)))
               \<and> (\<not> isNaN (result new) \<longrightarrow>
                    (status new = Gain) = jgt0 (result new)
                    \<and> (status new = Loss) = jlt0 (result new)
                    \<and> (status new = BreakEven) = jeq0 (result new))
               \<and> (case editingId st of
                     None \<Rightarrow> op_id new = now \<and> operations st' = operations st @ [new]
                   | Some eid \<Rightarrow> op_id new = eid
                       \<and> operations st' = map (\<lambda>old. if op_id old = eid then new else old)
                                            (operations st))"
      by iprover
    then have "\<exists>op. op \<in> set (operations st')
               \<and> asset op = form_asset formState \<and> side op = form_side formState
               \<and> date op = form_date formState \<and> lots op = l
               \<and> entryPrice op = parseCurrency (VStr (form_entryPrice formState))
               \<and> exitPrice op = parseCurrency (VStr (form_exitPrice formState))
               \<and> points op = (if side op = Buy then jsub (exitPrice op) (entryPrice op)
                              else jsub (entryPrice op) (exitPrice op))
               \<and> result op = jmul (jmul (points op) (num_of_int l))
                                (parseCurrency (VStr (form_pointValue formState)))
               \<and> (\<not> isNaN (result op) \<longrightarrow>
                    (status op = Gain) = jgt0 (result op)
                    \<and> (status op = Loss) = jlt0 (result op)
                    \<and> (status op = BreakEven) = jeq0 (result op))
               \<and> (case editingId st of
                     None \<Rightarrow> op_id op = now \<and> operations st' = operations st @ [op]
                   | Some eid \<Rightarrow> op_id op = eid
                       \<and> operations st' = map (\<lambda>old. if op_id old = eid then op else old)
                                            (operations st))"
      by (rule exI)
    with Some False show ?thesis
      by (simp only: option.case if_False)
  qed
qed

theorem submit_status_from_result_witness:
  "handleSubmit 1704888000000 (example_form ''2'' ''100'' ''105,5'')
       (example_state [example_op 10 1 ''2024-01-09'' 1 (Fin (- 5) 0) Loss])
     = Inr (example_state [example_op 10 1 ''2024-01-09'' 1 (Fin (- 5) 0) Loss,
         \<lparr>op_id = 1704888000000, asset = ''WINFUT'', opNumber = 2, side = Buy,
           date = ''2024-01-10'', lots = 2, entryPrice = Fin 1 2, exitPrice = Fin 1055 (- 1),
           points = Fin 55 (- 1), result = Fin 11 1, status = Gain, region = ''Barata'',
           structure = ''A-B-C'', trigger = ''2-2-1''\<rparr>])
   \<and> handleSubmit 1704888000000 (example_form ''3'' ''100'' ''98'')
       ((example_state [example_op 10 1 ''2024-01-09'' 1 (Fin (- 5) 0) Loss,
                        example_op 20 2 ''2024-01-09'' 1 (Fin 1 2) Gain])\<lparr>editingId := Some 10\<rparr>)
     = Inr (example_state
         [\<lparr>op_id = 10, asset = ''WINFUT'', opNumber = 1, side = Buy,
           date = ''2024-01-10'', lots = 3, entryPrice = Fin 1 2, exitPrice = Fin 98 0,
           points = Fin (- 2) 0, result = Fin (- 6) 1, status = Loss, region = ''Barata'',
           structure = ''A-B-C'', trigger = ''2-2-1''\<rparr>,
          example_op 20 2 ''2024-01-09'' 1 (Fin 1 2) Gain])
   \<and> parseInt (form_lots (example_form ''2'' ''100'' ''105,5'')) = Some 2
   \<and> parseInt (form_lots (example_form ''3'' ''100'' ''98'')) = Some 3
   \<and> jgt0 (Fin 11 1) \<and> jlt0 (Fin (- 6) 1)"
proof -
  have c: "handleSubmit 1704888000000 (example_form ''2'' ''100'' ''105,5'')
       (example_state [example_op 10 1 ''2024-01-09'' 1 (Fin (- 5) 0) Loss])
     = Inr (example_state [example_op 10 1 ''2024-01-09'' 1 (Fin (- 5) 0) Loss,
         \<lparr>op_id = 1704888000000, asset = ''WINFUT'', opNumber = 2, side = Buy,
           date = ''2024-01-10'', lots = 2, entryPrice = Fin 1 2, exitPrice = Fin 1055 (- 1),
           points = Fin 55 (- 1), result = Fin 11 1, status = Gain, region = ''Barata'',
           structure = ''A-B-C'', trigger = ''2-2-1''\<rparr>])"
    by code_simp
  have u: "handleSubmit 1704888000000 (example_form ''3'' ''100'' ''98'')
       ((example_state [example_op 10 1 ''2024-01-09'' 1 (Fin (- 5) 0) Loss,
                        example_op 20 2 ''2024-01-09'' 1 (Fin 1 2) Gain])\<lparr>editingId := Some 10\<rparr>)
     = Inr (example_state
         [\<lparr>op_id = 10, asset = ''WINFUT'', opNumber = 1, side = Buy,
           date = ''2024-01-10'', lots = 3, entryPrice = Fin 1 2, exitPrice = Fin 98 0,
           points = Fin (- 2) 0, result = Fin (- 6) 1, status = Loss, region = ''Barata'',
           structure = ''A-B-C'', trigger = ''2-2-1''\<rparr>,
          example_op 20 2 ''2024-01-09'' 1 (Fin 1 2) Gain])"
    by code_simp
  have p: "parseInt (form_lots (example_form ''2'' ''100'' ''105,5'')) = Some 2"
    "parseInt (form_lots (example_form ''3'' ''100'' ''98'')) = Some 3"
    by code_simp+
  have s: "jgt0 (Fin 11 1)" "jlt0 (Fin (- 6) 1)"
    by simp_all
  from submit_status_from_result [OF c] submit_status_from_result [OF u] c u p s
  show ?thesis
    by iprover
qed

text \<open>
  An imported row keeps the status and the result that the file gives, each on its own:
  a row with result 100 and status Loss is stored so.
\<close>

theorem import_status_counterexample:
  "map status (operations (fst (handleFileImport example_now example_today
      \<lparr>header = [''Result'', ''Status''], data = [[''100'', ''Loss'']]\<rparr> (example_state []))))
     = [Loss]
   \<and> map result (operations (fst (handleFileImport example_now example_today
      \<lparr>header = [''Result'', ''Status''], data = [[''100'', ''Loss'']]\<rparr> (example_state []))))
     = [Fin 1 2]
   \<and> \<not> jlt0 (Fin 1 2)"
  by code_simp
section \<open>An invalid number aborts the import\<close>

text \<open>
  Claim C2. If for some data line of the file the integer parse of the sequence number
  or of the quantity gives \<open>NaN\<close>, the import returns the state it was given (no record
  added) together with one error, which names the first such line by its position
  among the data lines counted from 1, plus one for the header line (its index from 0,
  plus two).
\<close>

theorem import_aborts_on_invalid_number:
  assumes "\<exists>cells\<in>set (data file). invalidNumber (row_object (header file) cells)"
  shows "\<exists>i<length (data file).
           invalidNumber (row_object (header file) (data file ! i)) \<and>
           (\<forall>j<i. \<not> invalidNumber (row_object (header file) (data file ! j))) \<and>
           handleFileImport now today file st
             = (st, ImportErrorDetail (InvalidNumberInRow (i + 2)))"
proof -
  let ?rows = "map (row_object (header file)) (data file)"
  from assms have "\<exists>r\<in>set ?rows. invalidNumber r"
    by simp
  from first_invalid_exists [OF this] obtain i where i: "i < length ?rows"
    "invalidNumber (?rows ! i)" "\<forall>j<i. \<not> invalidNumber (?rows ! j)"
    by blast
  from importRows_first_invalid [OF this] have
    "importedOps now today file = Inl (InvalidNumberInRow (i + 2))"
    by (simp add: importedOps_def)
  then have "handleFileImport now today file st
      = (st, ImportErrorDetail (InvalidNumberInRow (i + 2)))"
    by (simp add: handleFileImport_def)
  with i show ?thesis
    by auto
qed

theorem import_aborts_on_invalid_number_witness:
  "invalidNumber (row_object [''Op#'', ''Asset'', ''Lots''] [''abc'', ''WDOFUT'', ''1''])
   \<and> handleFileImport example_now example_today
       \<lparr>header = [''Op#'', ''Asset'', ''Lots''],
        data = [[''1'', ''WINFUT'', ''2''], [''abc'', ''WDOFUT'', ''1''], [''3'', ''WINFUT'', ''x'']]\<rparr>
       (example_state [example_op 10 1 ''2024-01-09'' 1 (Fin 1 2) Gain])
     = (example_state [example_op 10 1 ''2024-01-09'' 1 (Fin 1 2) Gain],
        ImportErrorDetail (InvalidNumberInRow 3))"
proof -
  let ?file = "\<lparr>header = [''Op#'', ''Asset'', ''Lots''],
        data = [[''1'', ''WINFUT'', ''2''], [''abc'', ''WDOFUT'', ''1''], [''3'', ''WINFUT'', ''x'']]\<rparr>"
  have bad: "invalidNumber (row_object [''Op#'', ''Asset'', ''Lots''] [''abc'', ''WDOFUT'', ''1''])"
    by code_simp
  then have "\<exists>cells\<in>set (data ?file). invalidNumber (row_object (header ?file) cells)"
    by simp
  from import_aborts_on_invalid_number [OF this, of example_now example_today
      "example_state [example_op 10 1 ''2024-01-09'' 1 (Fin 1 2) Gain]"]
  obtain i where i: "handleFileImport example_now example_today ?file
       (example_state [example_op 10 1 ''2024-01-09'' 1 (Fin 1 2) Gain])
        = (example_state [example_op 10 1 ''2024-01-09'' 1 (Fin 1 2) Gain],
           ImportErrorDetail (InvalidNumberInRow (i + 2)))"
    by blast
  have "handleFileImport example_now example_today ?file
       (example_state [example_op 10 1 ''2024-01-09'' 1 (Fin 1 2) Gain])
        = (example_state [example_op 10 1 ''2024-01-09'' 1 (Fin 1 2) Gain],
           ImportErrorDetail (InvalidNumberInRow 3))"
    by code_simp
  with bad i show ?thesis
    by simp
qed

section \<open>Positive quantities\<close>

text \<open>
  Claim C3, as the code has it. If every record of the list has \<open>lots > 0\<close>, then so
  has every record after a form is submitted (create or update) and after a delete.
  (CSV import is not covered: it accepts any integer quantity, and 0 for a missing one.)
\<close>

theorem lots_positive_preserved:
  assumes "\<forall>op\<in>set (operations st). 0 < lots op"
  shows "(handleSubmit now formState st = Inr st' \<longrightarrow> (\<forall>op\<in>set (operations st'). 0 < lots op))
       \<and> (\<forall>op\<in>set (operations (confirmDelete operationToDelete st)). 0 < lots op)"
proof (intro conjI impI ballI)
  fix op
  assume "handleSubmit now formState st = Inr st'" "op \<in> set (operations st')"
  from handleSubmit_new_operation [OF this] assms show "0 < lots op"
    by (auto simp: submittedOp_lots)
next
  fix op
  assume op: "op \<in> set (operations (confirmDelete operationToDelete st))"
  show "0 < lots op"
  proof (cases operationToDelete)
    case None
    with op assms show ?thesis
      by (simp add: confirmDelete_def)
  next
    case (Some target)
    with op have "op \<in> set (renumber (js_sort byOpNumber
        (filter (\<lambda>op. op_id op \<noteq> op_id target) (operations st))))"
      by (simp add: confirmDelete_def)
    from renumber_lots [OF this] assms show ?thesis
      by (auto simp: set_js_sort)
  qed
qed

theorem lots_positive_preserved_witness:
  "map lots (operations (example_state [example_op 10 1 ''2024-01-09'' 1 (Fin 1 2) Gain])) = [1]
   \<and> handleSubmit 1704888000000 (example_form ''2'' ''100'' ''105,5'')
         (example_state [example_op 10 1 ''2024-01-09'' 1 (Fin 1 2) Gain])
       = Inr (example_state [example_op 10 1 ''2024-01-09'' 1 (Fin 1 2) Gain,
           \<lparr>op_id = 1704888000000, asset = ''WINFUT'', opNumber = 2, side = Buy,
             date = ''2024-01-10'', lots = 2, entryPrice = Fin 1 2, exitPrice = Fin 1055 (- 1),
             points = Fin 55 (- 1), result = Fin 11 1, status = Gain, region = ''Barata'',
             structure = ''A-B-C'', trigger = ''2-2-1''\<rparr>])
   \<and> map lots (operations (confirmDelete None
         (example_state [example_op 10 1 ''2024-01-09'' 1 (Fin 1 2) Gain]))) = [1]"
proof -
  have a: "\<forall>op\<in>set (operations (example_state [example_op 10 1 ''2024-01-09'' 1 (Fin 1 2) Gain])).
      0 < lots op"
    by (simp add: example_state_def example_op_def)
  have h: "handleSubmit 1704888000000 (example_form ''2'' ''100'' ''105,5'')
         (example_state [example_op 10 1 ''2024-01-09'' 1 (Fin 1 2) Gain])
       = Inr (example_state [example_op 10 1 ''2024-01-09'' 1 (Fin 1 2) Gain,
           \<lparr>op_id = 1704888000000, asset = ''WINFUT'', opNumber = 2, side = Buy,
             date = ''2024-01-10'', lots = 2, entryPrice = Fin 1 2, exitPrice = Fin 1055 (- 1),
             points = Fin 55 (- 1), result = Fin 11 1, status = Gain, region = ''Barata'',
             structure = ''A-B-C'', trigger = ''2-2-1''\<rparr>])"
    by code_simp
  from lots_positive_preserved [OF a, of 1704888000000 "example_form ''2'' ''100'' ''105,5''" _ None] h
  show ?thesis
    by (simp add: example_state_def example_op_def confirmDelete_def)
qed

text \<open>
  An imported row is stored with the quantity the file gives, or 0 when the file gives
  none: nothing on this path asks for a positive one.
\<close>

theorem import_lots_counterexample:
  "map lots (operations (fst (handleFileImport example_now example_today
      \<lparr>header = [''Asset'', ''Lots''], data = [[''WINFUT'', ''0'']]\<rparr> (example_state [])))) = [0]
   \<and> map lots (operations (fst (handleFileImport example_now example_today
      \<lparr>header = [''Asset''], data = [[''WINFUT'']]\<rparr> (example_state [])))) = [0]
   \<and> map lots (operations (fst (handleFileImport example_now example_today
      \<lparr>header = [''Asset'', ''Lots''], data = [[''WINFUT'', ''-3'']]\<rparr> (example_state [])))) = [- 3]"
  by code_simp

section \<open>The week filter\<close>

text \<open>
  Claim C4, as the code has it. A record matches the week filter if and only if its
  date, taken as midnight UTC, is not before the most recent Sunday: the start of the
  week is today's midnight UTC minus as many days as today's day of the week, it is a
  Sunday, and it is today or one of the six days before. In particular a record dated
  on that Sunday matches and a record dated on the Saturday before does not. (There is
  no upper limit: a record dated after today matches as well.)
\<close>

theorem week_filter_from_sunday:
  "(op \<in> set (filteredOperations Week c ops))
     = (op \<in> set ops \<and> nowUTC c - getUTCDay (nowUTC c) * msPerDay \<le> getDateAsUTC (date op))
   \<and> startOfWeekUTC c = nowUTC c - getUTCDay (nowUTC c) * msPerDay
   \<and> getUTCDay (startOfWeekUTC c) = 0
   \<and> startOfWeekUTC c \<le> nowUTC c \<and> nowUTC c < startOfWeekUTC c + 7 * msPerDay
   \<and> (op \<in> set ops \<and> getDateAsUTC (date op) = startOfWeekUTC c
        \<longrightarrow> op \<in> set (filteredOperations Week c ops))
   \<and> (getDateAsUTC (date op) = startOfWeekUTC c - msPerDay
        \<longrightarrow> op \<notin> set (filteredOperations Week c ops))"
proof -
  have "(op \<in> set (filteredOperations Week c ops))
     = (op \<in> set ops \<and> nowUTC c - getUTCDay (nowUTC c) * msPerDay \<le> getDateAsUTC (date op))"
    by (simp only: set_filteredOperations_Week startOfWeekUTC_eq)
  moreover have "getDateAsUTC (date op) = startOfWeekUTC c - msPerDay
        \<longrightarrow> op \<notin> set (filteredOperations Week c ops)"
    using msPerDay_pos by (simp add: set_filteredOperations_Week)
  moreover have "op \<in> set ops \<and> getDateAsUTC (date op) = startOfWeekUTC c
        \<longrightarrow> op \<in> set (filteredOperations Week c ops)"
    by (simp add: set_filteredOperations_Week)
  ultimately show ?thesis
    using startOfWeekUTC_eq [of c] startOfWeekUTC_sunday [of c] startOfWeekUTC_bounds [of c]
    by blast
qed

theorem week_filter_from_sunday_witness:
  "startOfWeekUTC \<lparr>utcFullYear = 2024, utcMonth = 0, utcDate = 10\<rparr> = getDateAsUTC ''2024-01-07''
   \<and> getUTCDay (getDateAsUTC ''2024-01-07'') = 0
   \<and> filteredOperations Week \<lparr>utcFullYear = 2024, utcMonth = 0, utcDate = 10\<rparr>
        [example_op 10 1 ''2024-01-06'' 1 (Fin 1 2) Gain,
         example_op 20 2 ''2024-01-07'' 1 (Fin 1 2) Gain,
         example_op 30 3 ''2024-01-10'' 1 (Fin 1 2) Gain]
       = [example_op 20 2 ''2024-01-07'' 1 (Fin 1 2) Gain,
          example_op 30 3 ''2024-01-10'' 1 (Fin 1 2) Gain]"
proof -
  let ?c = "\<lparr>utcFullYear = 2024, utcMonth = 0, utcDate = 10\<rparr>"
  let ?sat = "example_op 10 1 ''2024-01-06'' 1 (Fin 1 2) Gain"
  let ?sun = "example_op 20 2 ''2024-01-07'' 1 (Fin 1 2) Gain"
  let ?wed = "example_op 30 3 ''2024-01-10'' 1 (Fin 1 2) Gain"
  have s: "startOfWeekUTC ?c = getDateAsUTC ''2024-01-07''"
    by code_simp
  have f: "filteredOperations Week ?c [?sat, ?sun, ?wed] = [?sun, ?wed]"
    by code_simp
  have g: "getUTCDay (getDateAsUTC ''2024-01-07'') = 0"
    by code_simp
  from week_filter_from_sunday [of ?sun ?c "[?sat, ?sun, ?wed]"] s g f show ?thesis
    by blast
qed

text \<open>
  With the clock on Wednesday 2024-01-10, a record dated 2024-01-20 passes the week
  filter although its date is after today.
\<close>

theorem week_filter_counterexample:
  "filteredOperations Week \<lparr>utcFullYear = 2024, utcMonth = 0, utcDate = 10\<rparr>
      [example_op 10 1 ''2024-01-20'' 1 (Fin 1 2) Gain]
     = [example_op 10 1 ''2024-01-20'' 1 (Fin 1 2) Gain]
   \<and> nowUTC \<lparr>utcFullYear = 2024, utcMonth = 0, utcDate = 10\<rparr> = getDateAsUTC ''2024-01-10''
   \<and> \<not> getDateAsUTC ''2024-01-20'' \<le> getDateAsUTC ''2024-01-10''"
  by code_simp


section \<open>The round trip through a CSV file\<close>

text \<open>
  Claim C5, as the code has it. Take the list of records of a state that the
  application can reach, with every sequence number finite and every quantity below
  \<open>10 ^ 21\<close> in absolute value. Importing the file that the export writes for it succeeds
  and produces as many records, in the same order, each with the asset, side, date,
  quantity, entry price, exit price, region, structure and trigger of the original;
  they are merged into the list of the importing state, and the count is reported.
  (Identifiers are new.)
\<close>

theorem export_import_roundtrip:
  assumes "reachable st" "list_all readableNumbers (operations st)"
  shows "\<exists>ops'. importedOps now today (exportToCSV (operations st)) = Inr ops'
           \<and> length ops' = length (operations st)
           \<and> list_all2 sameTrade (operations st) ops'
           \<and> handleFileImport now today (exportToCSV (operations st)) st0
              = (st0\<lparr>operations := js_sort byOpNumber (operations st0 @ ops')\<rparr>,
                 ImportSuccess (length (operations st)))"
proof (cases "operations st = []")
  case True
  then have "importedOps now today (exportToCSV (operations st)) = Inr []"
    by (simp add: importedOps_def exportToCSV_def)
  with True show ?thesis
    by (simp add: handleFileImport_def)
next
  case False
  from reachable_held [OF assms(1)] have held: "list_all heldRecord (operations st)"
    by (simp add: list_all_iff)
  from importRows_unparse_rows [OF held assms(2), of now today 0] obtain ops' where
    t: "importRows now today 0
          (map (row_object unparse_fields) (map unparse_row (operations st))) = Inr ops'"
    "list_all2 sameTrade (operations st) ops'"
    by blast
  from False t(1) have i: "importedOps now today (exportToCSV (operations st)) = Inr ops'"
    by (simp add: importedOps_def exportToCSV_def)
  from t(2) have l: "length ops' = length (operations st)"
    by (simp add: list_all2_lengthD)
  from i l have "handleFileImport now today (exportToCSV (operations st)) st0
      = (st0\<lparr>operations := js_sort byOpNumber (operations st0 @ ops')\<rparr>,
         ImportSuccess (length (operations st)))"
    by (simp add: handleFileImport_def)
  with i l t(2) show ?thesis
    by blast
qed

theorem export_import_roundtrip_witness:
  "handleSubmit 1704888000000 (example_form ''2'' ''100'' ''105,5'') (example_state [])
     = Inr (example_state
         [\<lparr>op_id = 1704888000000, asset = ''WINFUT'', opNumber = 1, side = Buy,
           date = ''2024-01-10'', lots = 2, entryPrice = Fin 1 2, exitPrice = Fin 1055 (- 1),
           points = Fin 55 (- 1), result = Fin 11 1, status = Gain, region = ''Barata'',
           structure = ''A-B-C'', trigger = ''2-2-1''\<rparr>])
   \<and> handleSubmit 1704888000500 ((example_form ''1'' ''100'' ''99,5'')\<lparr>form_side := Sell\<rparr>)
       (example_state
         [\<lparr>op_id = 1704888000000, asset = ''WINFUT'', opNumber = 1, side = Buy,
           date = ''2024-01-10'', lots = 2, entryPrice = Fin 1 2, exitPrice = Fin 1055 (- 1),
           points = Fin 55 (- 1), result = Fin 11 1, status = Gain, region = ''Barata'',
           structure = ''A-B-C'', trigger = ''2-2-1''\<rparr>])
     = Inr (example_state
         [\<lparr>op_id = 1704888000000, asset = ''WINFUT'', opNumber = 1, side = Buy,
           date = ''2024-01-10'', lots = 2, entryPrice = Fin 1 2, exitPrice = Fin 1055 (- 1),
           points = Fin 55 (- 1), result = Fin 11 1, status = Gain, region = ''Barata'',
           structure = ''A-B-C'', trigger = ''2-2-1''\<rparr>,
          \<lparr>op_id = 1704888000500, asset = ''WINFUT'', opNumber = 2, side = Sell,
           date = ''2024-01-10'', lots = 1, entryPrice = Fin 1 2, exitPrice = Fin 995 (- 1),
           points = Fin 5 (- 1), result = Fin 5 0, status = Gain, region = ''Barata'',
           structure = ''A-B-C'', trigger = ''2-2-1''\<rparr>])
   \<and> importedOps example_now example_today (exportToCSV
         [\<lparr>op_id = 1704888000000, asset = ''WINFUT'', opNumber = 1, side = Buy,
           date = ''2024-01-10'', lots = 2, entryPrice = Fin 1 2, exitPrice = Fin 1055 (- 1),
           points = Fin 55 (- 1), result = Fin 11 1, status = Gain, region = ''Barata'',
           structure = ''A-B-C'', trigger = ''2-2-1''\<rparr>,
          \<lparr>op_id = 1704888000500, asset = ''WINFUT'', opNumber = 2, side = Sell,
           date = ''2024-01-10'', lots = 1, entryPrice = Fin 1 2, exitPrice = Fin 995 (- 1),
           points = Fin 5 (- 1), result = Fin 5 0, status = Gain, region = ''Barata'',
           structure = ''A-B-C'', trigger = ''2-2-1''\<rparr>])
     = Inr
         [\<lparr>op_id = 1704888000000, asset = ''WINFUT'', opNumber = 1, side = Buy,
           date = ''2024-01-10'', lots = 2, entryPrice = Fin 1 2, exitPrice = Fin 1055 (- 1),
           points = Fin 55 (- 1), result = Fin 11 1, status = Gain, region = ''Barata'',
           structure = ''A-B-C'', trigger = ''2-2-1''\<rparr>,
          \<lparr>op_id = 1704888000001, asset = ''WINFUT'', opNumber = 2, side = Sell,
           date = ''2024-01-10'', lots = 1, entryPrice = Fin 1 2, exitPrice = Fin 995 (- 1),
           points = Fin 5 (- 1), result = Fin 5 0, status = Gain, region = ''Barata'',
           structure = ''A-B-C'', trigger = ''2-2-1''\<rparr>]"
proof -
  let ?a = "\<lparr>op_id = 1704888000000, asset = ''WINFUT'', opNumber = 1, side = Buy,
           date = ''2024-01-10'', lots = 2, entryPrice = Fin 1 2, exitPrice = Fin 1055 (- 1),
           points = Fin 55 (- 1), result = Fin 11 1, status = Gain, region = ''Barata'',
           structure = ''A-B-C'', trigger = ''2-2-1''\<rparr>"
  let ?b = "\<lparr>op_id = 1704888000500, asset = ''WINFUT'', opNumber = 2, side = Sell,
           date = ''2024-01-10'', lots = 1, entryPrice = Fin 1 2, exitPrice = Fin 995 (- 1),
           points = Fin 5 (- 1), result = Fin 5 0, status = Gain, region = ''Barata'',
           structure = ''A-B-C'', trigger = ''2-2-1''\<rparr>"
  have h1: "handleSubmit 1704888000000 (example_form ''2'' ''100'' ''105,5'') (example_state [])
     = Inr (example_state [?a])"
    by code_simp
  have h2: "handleSubmit 1704888000500 ((example_form ''1'' ''100'' ''99,5'')\<lparr>form_side := Sell\<rparr>)
       (example_state [?a]) = Inr (example_state [?a, ?b])"
    by code_simp
  have f: "requiredFilled (example_form ''2'' ''100'' ''105,5'')"
    "requiredFilled ((example_form ''1'' ''100'' ''99,5'')\<lparr>form_side := Sell\<rparr>)"
    by (simp_all add: requiredFilled_def example_form_def)
  have "reachable (example_state [])"
    by (rule reachable.initial) (simp add: example_state_def)
  from reachable.submitted [OF this f(1) h1] have "reachable (example_state [?a])" .
  from reachable.submitted [OF this f(2) h2] have r: "reachable (example_state [?a, ?b])" .
  have p: "list_all readableNumbers (operations (example_state [?a, ?b]))"
    by (simp add: example_state_def readableNumbers_def isFiniteInteger_def Number_overflow_def)
  have i: "importedOps example_now example_today (exportToCSV [?a, ?b])
      = Inr [?a, ?b\<lparr>op_id := 1704888000001\<rparr>]"
    by code_simp
  from export_import_roundtrip [OF r p, of example_now example_today "example_state []"] h1 h2 i
  show ?thesis
    by simp
qed

text \<open>
  A form with the quantity \<open>1000000000000000000000\<close> is stored with that quantity,
  \<open>10 ^ 21\<close>. The export writes it as \<open>1e+21\<close>, and the import reads it back as 1. A row
  imported with a sequence number of 310 digits is stored with the sequence number
  \<open>Infinity\<close>; the export writes \<open>Infinity\<close>, and the import of that file fails.
\<close>

theorem export_import_counterexample:
  "handleSubmit 1704888000000 (example_form ''1000000000000000000000'' ''100'' ''100'')
       (example_state [])
     = Inr (example_state
         [\<lparr>op_id = 1704888000000, asset = ''WINFUT'', opNumber = 1, side = Buy,
           date = ''2024-01-10'', lots = 1000000000000000000000, entryPrice = Fin 1 2,
           exitPrice = Fin 1 2, points = Fin 0 0, result = Fin 0 0, status = BreakEven,
           region = ''Barata'', structure = ''A-B-C'', trigger = ''2-2-1''\<rparr>])
   \<and> map lots (operations (fst (handleFileImport example_now example_today
       (exportToCSV
         [\<lparr>op_id = 1704888000000, asset = ''WINFUT'', opNumber = 1, side = Buy,
           date = ''2024-01-10'', lots = 1000000000000000000000, entryPrice = Fin 1 2,
           exitPrice = Fin 1 2, points = Fin 0 0, result = Fin 0 0, status = BreakEven,
           region = ''Barata'', structure = ''A-B-C'', trigger = ''2-2-1''\<rparr>])
       (example_state [])))) = [1]
   \<and> map opNumber (operations (fst (handleFileImport example_now example_today
       \<lparr>header = [''Op#'', ''Asset'', ''Lots''],
        data = [[CHR ''1'' # replicate 309 CHR ''0'', ''WINFUT'', ''1'']]\<rparr>
       (example_state [])))) = [Number_overflow]
   \<and> handleFileImport example_now example_today
       (exportToCSV (operations (fst (handleFileImport example_now example_today
         \<lparr>header = [''Op#'', ''Asset'', ''Lots''],
          data = [[CHR ''1'' # replicate 309 CHR ''0'', ''WINFUT'', ''1'']]\<rparr>
         (example_state [])))))
       (example_state [])
     = (example_state [], ImportErrorDetail (InvalidNumberInRow 2))"
  by code_simp
section \<open>The two decimal conventions\<close>

text \<open>
  Claim C6, as the code has it. Take a numeral with a fraction: digits that may be
  grouped by commas, a dot, and one or more digits. The parser returns the number it
  denotes (its digits, scaled by the number of fraction digits), and it returns the same
  number for the numeral in the other convention, where the groups are separated by
  dots and the fraction by a comma. For every string the parser is the stated algorithm:
  zero for a blank string, otherwise the result of \<open>parseFloat\<close> (zero for \<open>NaN\<close>) on the string
  normalised as the specification says. (Without a fraction the conventions can differ.)
\<close>

theorem decimal_conventions_agree:
  assumes "list_all (\<lambda>c. is_digit c \<or> c = CHR '','') us" "list_all is_digit fp" "fp \<noteq> []"
  shows "parseCurrency (VStr (us @ ''.'' @ fp))
           = mkFin (int_of_digits (filter is_digit us @ fp)) (- int (length fp))
       \<and> parseCurrency (VStr (swap_separators (us @ ''.'' @ fp)))
           = parseCurrency (VStr (us @ ''.'' @ fp))
       \<and> parseCurrency (VStr s)
           = (if trim s = [] then Fin 0 0
              else if isNaN (parseFloat (specNormalize (trim s))) then Fin 0 0
              else parseFloat (specNormalize (trim s)))"
proof -
  let ?v = "mkFin (int_of_digits (filter is_digit us @ fp)) (- int (length fp))"
  have ws: "\<not> is_ws CHR '',''" "\<not> is_ws CHR ''.''"
    by (simp_all add: is_ws_def)
  have d: "list_all is_digit (filter is_digit us)"
    by (simp add: list_all_iff)
  have v: "parseFloat (filter is_digit us @ CHR ''.'' # fp) = ?v"
    using d assms(2,3) by (rule parseFloat_plain_decimal)
  have nn: "\<not> isNaN ?v"
    by (simp add: isNaN_def mkFin_not_NaN)
  have t1: "trim (us @ CHR ''.'' # fp) = us @ CHR ''.'' # fp"
    using assms ws by (intro trim_numeral)
  have us: "parseCurrency (VStr (us @ CHR ''.'' # fp)) = ?v"
    using nn by (simp add: Let_def t1 normalizeSeparators_dot_decimal [OF assms(1,2)] v)
  note sw = swap_separators_grouped [OF assms(1,2)]
  have t2: "trim (swap_separators us @ CHR '','' # fp) = swap_separators us @ CHR '','' # fp"
    using sw(2) assms(2,3) ws by (intro trim_numeral)
  have br: "parseCurrency (VStr (swap_separators us @ CHR '','' # fp)) = ?v"
    using nn by (simp add: Let_def t2 normalizeSeparators_comma_decimal [OF sw(2) assms(2)]
        sw(3) v)
  have 1: "parseCurrency (VStr (us @ ''.'' @ fp)) = ?v"
    using us by (simp only: append_Cons append_Nil)
  have 2: "parseCurrency (VStr (swap_separators (us @ ''.'' @ fp)))
      = parseCurrency (VStr (us @ ''.'' @ fp))"
    using br sw(1) 1 by (simp only: append_Cons append_Nil)
  from 1 2 parseCurrency_string [of s] show ?thesis
    by iprover
qed

theorem decimal_conventions_agree_witness:
  "parseCurrency (VStr ''1,234.56'') = Fin 123456 (- 2)
   \<and> parseCurrency (VStr ''1.234,56'') = Fin 123456 (- 2)"
proof -
  have a: "list_all (\<lambda>c. is_digit c \<or> c = CHR '','') ''1,234''" "list_all is_digit ''56''"
      "''56'' \<noteq> []"
    by code_simp+
  have s: "swap_separators ''1,234.56'' = ''1.234,56''"
    by code_simp
  have j: "''1,234'' @ ''.'' @ ''56'' = ''1,234.56''"
    by simp
  from decimal_conventions_agree [OF a, of "[]"]
  have "parseCurrency (VStr (swap_separators (''1,234'' @ ''.'' @ ''56'')))
      = parseCurrency (VStr (''1,234'' @ ''.'' @ ''56''))"
    by iprover
  with j have "parseCurrency (VStr (swap_separators ''1,234.56''))
      = parseCurrency (VStr ''1,234.56'')"
    by (simp only:)
  then have e: "parseCurrency (VStr ''1.234,56'') = parseCurrency (VStr ''1,234.56'')"
    by (simp only: s)
  have u: "parseCurrency (VStr ''1,234.56'') = Fin 123456 (- 2)"
    by code_simp
  from e u show ?thesis
    by (simp only: simp_thms)
qed

text \<open>
  The number 1234567 with grouping only: the commas of \<open>1,234,567\<close> make it 1.234 (the
  last comma is after the last dot, the first comma becomes the decimal point), the
  dots of \<open>1.234.567\<close> are all stripped.
\<close>

theorem decimal_conventions_counterexample:
  "parseCurrency (VStr ''1,234,567'') = Fin 1234 (- 3)
   \<and> parseCurrency (VStr ''1.234.567'') = Fin 1234567 0"
  by code_simp


section \<open>The cumulative series\<close>

text \<open>
  Claim C7, as the code has it. For filtered records whose dates are calendar dates
  \<open>YYYY-MM-DD\<close> (a month from 01 to 12 and a day that the month has), the cumulative
  series is the list of the records in the stable order by year, month and day, then
  by sequence number, each with its date and the sum of the results up to and including
  it; it has one point per record. The line chart shows the message for missing data
  exactly when there are fewer than two points, and the chart of the series otherwise.
  The example has the results 100, -40 and 60 and the series values 100, 60 and 120.
\<close>

theorem cumulative_series:
  assumes "\<forall>op\<in>set filteredOps. is_calendar_date (date op)"
  shows "let sorted = sort_key (\<lambda>op. (date_year (date op), date_month (date op),
                                        date_day (date op), opNumber op)) filteredOps;
             series = cumulativeChartData other filteredOps
         in series = map (\<lambda>k. (date (sorted ! k),
                                 foldl jadd (Fin 0 0) (map result (take (Suc k) sorted))))
                       [0..<length sorted]
            \<and> length series = length filteredOps
            \<and> (LineChart series = NoDataMessage) = (length filteredOps < 2)
            \<and> (LineChart series = AreaChart series) = (2 \<le> length filteredOps)"
proof -
  let ?key = "\<lambda>op. (date_year (date op), date_month (date op), date_day (date op), opNumber op)"
  have s: "js_sort (byDateThenOpNumber other) filteredOps = sort_key ?key filteredOps"
    using assms by (intro js_sort_sort_key) (simp add: byDateThenOpNumber_key)
  let ?sorted = "sort_key ?key filteredOps"
  let ?series = "cumulativeChartData other filteredOps"
  have 1: "?series = map (\<lambda>k. (date (?sorted ! k),
                                 foldl jadd (Fin 0 0) (map result (take (Suc k) ?sorted))))
                       [0..<length ?sorted]"
    unfolding cumulativeChartData_def s by (rule running_nth)
  have 2: "length ?series = length filteredOps"
    unfolding cumulativeChartData_def s by (simp add: length_running)
  have 3: "(LineChart ?series = NoDataMessage) = (length filteredOps < 2)"
    by (simp add: LineChart_def 2)
  have 4: "(LineChart ?series = AreaChart ?series) = (2 \<le> length filteredOps)"
    by (auto simp: LineChart_def 2)
  from 1 2 3 4 show ?thesis
    unfolding Let_def by blast
qed

theorem cumulative_series_witness:
  "cumulativeChartData (\<lambda>s. None)
      [example_op 10 1 ''2024-02-01'' 1 (Fin 6 1) Gain,
       example_op 20 3 ''2023-12-31'' 1 (Fin (- 4) 1) Loss,
       example_op 30 2 ''2023-12-31'' 1 (Fin 1 2) Gain]
     = [(''2023-12-31'', Fin 1 2), (''2023-12-31'', Fin 6 1), (''2024-02-01'', Fin 12 1)]
   \<and> sort_key (\<lambda>op. (date_year (date op), date_month (date op), date_day (date op), opNumber op))
      [example_op 10 1 ''2024-02-01'' 1 (Fin 6 1) Gain,
       example_op 20 3 ''2023-12-31'' 1 (Fin (- 4) 1) Loss,
       example_op 30 2 ''2023-12-31'' 1 (Fin 1 2) Gain]
     = [example_op 30 2 ''2023-12-31'' 1 (Fin 1 2) Gain,
        example_op 20 3 ''2023-12-31'' 1 (Fin (- 4) 1) Loss,
        example_op 10 1 ''2024-02-01'' 1 (Fin 6 1) Gain]
   \<and> LineChart (cumulativeChartData (\<lambda>s. None) [example_op 10 1 ''2024-02-01'' 1 (Fin 6 1) Gain])
       = NoDataMessage"
proof -
  let ?ops = "[example_op 10 1 ''2024-02-01'' 1 (Fin 6 1) Gain,
       example_op 20 3 ''2023-12-31'' 1 (Fin (- 4) 1) Loss,
       example_op 30 2 ''2023-12-31'' 1 (Fin 1 2) Gain]"
  have d: "is_calendar_date ''2024-02-01''" "is_calendar_date ''2023-12-31''"
    by code_simp+
  then have a: "\<forall>op\<in>set ?ops. is_calendar_date (date op)"
    by (simp add: example_op_def)
  have v: "cumulativeChartData (\<lambda>s. None) ?ops
     = [(''2023-12-31'', Fin 1 2), (''2023-12-31'', Fin 6 1), (''2024-02-01'', Fin 12 1)]"
    by code_simp
  have k: "sort_key (\<lambda>op. (date_year (date op), date_month (date op), date_day (date op),
        opNumber op)) ?ops
     = [example_op 30 2 ''2023-12-31'' 1 (Fin 1 2) Gain,
        example_op 20 3 ''2023-12-31'' 1 (Fin (- 4) 1) Loss,
        example_op 10 1 ''2024-02-01'' 1 (Fin 6 1) Gain]"
    by code_simp
  have l: "LineChart (cumulativeChartData (\<lambda>s. None) [example_op 10 1 ''2024-02-01'' 1 (Fin 6 1) Gain])
       = NoDataMessage"
    by code_simp
  from cumulative_series [OF a, of "\<lambda>s. None"] v k l show ?thesis
    by iprover
qed

text \<open>
  The string \<open>2024-13-45\<close> has the shape of a date, and the filters read it as one
  (\<open>getDateAsUTC\<close> carries the month and the day over), but \<open>new Date\<close> gives no time for
  it, so the comparator falls back to the sequence numbers: the record comes first in
  the series although the other record has the earlier date.
\<close>

theorem cumulative_series_counterexample:
  "is_date_shape ''2024-13-45'' \<and> is_date_shape ''2024-01-05''
   \<and> getDateAsUTC ''2024-01-05'' < getDateAsUTC ''2024-13-45''
   \<and> cumulativeChartData (\<lambda>s. None)
       [example_op 20 2 ''2024-01-05'' 1 (Fin 6 1) Gain,
        example_op 10 1 ''2024-13-45'' 1 (Fin 1 2) Gain]
     = [(''2024-13-45'', Fin 1 2), (''2024-01-05'', Fin 16 1)]"
  by code_simp
section \<open>Deleting renumbers the remaining operations\<close>

text \<open>
  Claim C8. Deleting a record renumbers the remaining records: their sequence numbers
  become \<open>1, ..., N\<close> for the \<open>N\<close> records that remain, given in the order of the old
  sequence numbers with records of equal old number kept in their relative order (the
  stable sort by the old number), and no other field of a remaining record changes.
\<close>

theorem confirmDelete_renumbers:
  "let remaining = filter (\<lambda>op. op_id op \<noteq> op_id target) (operations st);
       st' = confirmDelete (Some target) st
   in map opNumber (operations st') = map int [1..<Suc (length remaining)]
      \<and> map (\<lambda>op. op\<lparr>opNumber := 0\<rparr>) (operations st')
          = map (\<lambda>op. op\<lparr>opNumber := 0\<rparr>) (sort_key opNumber remaining)
      \<and> length (operations st') = length remaining"
  by (simp add: confirmDelete_def Let_def renumber_opNumbers renumber_others js_sort_byOpNumber
        del: upt_Suc)
    (simp add: renumber_def)

theorem confirmDelete_renumbers_witness:
  "map opNumber (operations (confirmDelete (Some (example_op 20 2 ''2024-01-10'' 1 (Fin 0 0) BreakEven))
      (example_state [example_op 10 3 ''2024-01-09'' 1 (Fin 1 2) Gain,
                      example_op 20 2 ''2024-01-10'' 1 (Fin 0 0) BreakEven,
                      example_op 30 1 ''2024-01-11'' 1 (Fin 5 0) Gain]))) = [1, 2]
   \<and> map op_id (operations (confirmDelete (Some (example_op 20 2 ''2024-01-10'' 1 (Fin 0 0) BreakEven))
      (example_state [example_op 10 3 ''2024-01-09'' 1 (Fin 1 2) Gain,
                      example_op 20 2 ''2024-01-10'' 1 (Fin 0 0) BreakEven,
                      example_op 30 1 ''2024-01-11'' 1 (Fin 5 0) Gain]))) = [30, 10]"
  using confirmDelete_renumbers [of "example_op 20 2 ''2024-01-10'' 1 (Fin 0 0) BreakEven"
      "example_state [example_op 10 3 ''2024-01-09'' 1 (Fin 1 2) Gain,
                      example_op 20 2 ''2024-01-10'' 1 (Fin 0 0) BreakEven,
                      example_op 30 1 ''2024-01-11'' 1 (Fin 5 0) Gain]"]
  by (simp add: example_op_def example_state_def confirmDelete_def js_sort_def byOpNumber_def
        renumber_def Let_def)

section \<open>The currency parser never fails\<close>

text \<open>
  Claim C9. The parser is a total function from its input to a number: a number is
  returned as it is, and for a string the result is never \<open>NaN\<close>. A string of white space
  only, the empty string and a string that \<open>parseFloat\<close> cannot read, such as \<open>abc\<close> (or
  the missing value \<open>undefined\<close>), give 0.
\<close>

theorem parseCurrency_total:
  "\<not> isNaN (parseCurrency (VStr s))
   \<and> (list_all is_ws s \<longrightarrow> parseCurrency (VStr s) = Fin 0 0)
   \<and> (isNaN (parseFloat (normalizeSeparators (trim s))) \<longrightarrow> parseCurrency (VStr s) = Fin 0 0)
   \<and> parseCurrency (VStr []) = Fin 0 0
   \<and> parseCurrency (VStr ''abc'') = Fin 0 0
   \<and> parseCurrency VUndefined = Fin 0 0
   \<and> parseCurrency (VNum x) = x"
proof -
  have 1: "\<not> isNaN (parseCurrency (VStr s))"
    by (simp add: Let_def isNaN_def)
  have 2: "list_all is_ws s \<longrightarrow> parseCurrency (VStr s) = Fin 0 0"
    by (simp add: Let_def trim_blank)
  have 3: "isNaN (parseFloat (normalizeSeparators (trim s))) \<longrightarrow> parseCurrency (VStr s) = Fin 0 0"
    by (simp add: Let_def)
  have 4: "parseCurrency (VStr []) = Fin 0 0"
    by code_simp
  have 5: "parseCurrency (VStr ''abc'') = Fin 0 0"
    by code_simp
  have 6: "parseCurrency VUndefined = Fin 0 0"
    by code_simp
  have 7: "parseCurrency (VNum x) = x"
    by simp
  from 1 2 3 4 5 6 7 show ?thesis
    by iprover
qed

theorem parseCurrency_total_witness:
  "list_all is_ws ''   ''
   \<and> parseCurrency (VStr ''   '') = Fin 0 0
   \<and> isNaN (parseFloat (normalizeSeparators (trim ''R$ 10'')))
   \<and> parseCurrency (VStr ''R$ 10'') = Fin 0 0"
proof -
  have a: "list_all is_ws ''   ''" "isNaN (parseFloat (normalizeSeparators (trim ''R$ 10'')))"
    by code_simp+
  from parseCurrency_total [of "''   ''"] parseCurrency_total [of "''R$ 10''"] a show ?thesis
    by iprover
qed

section \<open>Dates that are not of the shape YYYY-MM-DD\<close>

text \<open>
  Claim C10. Filtering is a total function of the records. For a record whose date
  string does not have the shape \<open>YYYY-MM-DD\<close> the date is taken as the epoch, so with a
  clock in a year after 1970 the record is excluded by the today, week and month
  filters, and the "all" filter keeps it.
\<close>

theorem malformed_date_is_epoch:
  assumes "\<not> is_date_shape (date op)" "valid_clock c" "1970 < utcFullYear c"
  shows "getDateAsUTC (date op) = 0
       \<and> op \<notin> set (filteredOperations Today c ops)
       \<and> op \<notin> set (filteredOperations Week c ops)
       \<and> op \<notin> set (filteredOperations Month c ops)
       \<and> (op \<in> set (filteredOperations All c ops)) = (op \<in> set ops)"
proof -
  have e: "getDateAsUTC (date op) = 0"
    using assms(1) by (simp add: getDateAsUTC_def)
  note n = nowUTC_after_1970 [OF assms(2,3)]
  have w: "0 < startOfWeekUTC c"
    using n(1) getUTCDay_range [of "nowUTC c"]
    by (simp add: startOfWeekUTC_eq msPerDay_def)
  have "0 < nowUTC c" "0 < startOfMonthUTC c"
    using n msPerDay_pos by (simp_all add: msPerDay_def)
  with e w show ?thesis
    by (simp add: filteredOperations_def)
qed

theorem malformed_date_is_epoch_witness:
  "\<not> is_date_shape ''10/01/2024''
   \<and> valid_clock \<lparr>utcFullYear = 2024, utcMonth = 0, utcDate = 10\<rparr>
   \<and> getDateAsUTC ''10/01/2024'' = 0
   \<and> filteredOperations Month \<lparr>utcFullYear = 2024, utcMonth = 0, utcDate = 10\<rparr>
        [example_op 10 1 ''10/01/2024'' 1 (Fin 1 2) Gain] = []
   \<and> filteredOperations All \<lparr>utcFullYear = 2024, utcMonth = 0, utcDate = 10\<rparr>
        [example_op 10 1 ''10/01/2024'' 1 (Fin 1 2) Gain]
       = [example_op 10 1 ''10/01/2024'' 1 (Fin 1 2) Gain]"
proof -
  let ?c = "\<lparr>utcFullYear = 2024, utcMonth = 0, utcDate = 10\<rparr>"
  let ?op = "example_op 10 1 ''10/01/2024'' 1 (Fin 1 2) Gain"
  have a: "\<not> is_date_shape (date ?op)"
    by code_simp
  have b: "valid_clock ?c"
    by code_simp
  have c: "1970 < utcFullYear ?c"
    by simp
  have f: "filteredOperations Month ?c [?op] = []" "filteredOperations All ?c [?op] = [?op]"
    by code_simp+
  have a': "\<not> is_date_shape ''10/01/2024''"
    by code_simp
  from malformed_date_is_epoch [OF a b c, of "[?op]"] have "getDateAsUTC (date ?op) = 0"
    by blast
  then have "getDateAsUTC ''10/01/2024'' = 0"
    by (simp add: example_op_def)
  with a' b f show ?thesis
    by blast
qed

end
